theory Spec2Isabelle
  imports Main "HOL-Library.Word" "HOL-Library.Multiset"
begin

section \<open>Health checker: data model\<close>

text \<open>
  \<^verbatim>\<open>time.Duration\<close> is a signed 64-bit count of nanoseconds. The health checker only
  stores durations and compares them with zero, so they are integers here; a
  \<^verbatim>\<open>time.Time\<close> is a reading of the clock in nanoseconds.
\<close>

type_synonym duration = int
type_synonym time = int

definition Second :: duration where
  "Second = 1000000000"

record Endpoint =
  Name :: string
  URL :: string
  Interval :: duration
  Timeout :: duration
  ExpectedStatus :: int

record HealthStatus =
  Endpoint :: Endpoint
  Healthy :: bool
  Latency :: duration
  LastCheck :: time
  Error :: string

text \<open>
  \<^verbatim>\<open>HealthChecker\<close>: the configured endpoints and the map from endpoint name to the
  latest status. The HTTP client and the lock are not data the functions below compute with.
\<close>

record HealthChecker =
  endpoints :: "Endpoint list"
  statuses :: "string \<rightharpoonup> HealthStatus"

definition defaultEndpoints :: "Endpoint list" where
  "defaultEndpoints =
    [\<lparr>Name = ''Google'', URL = ''https://www.google.com'',
      Interval = 5 * Second, Timeout = 3 * Second, ExpectedStatus = 200\<rparr>,
     \<lparr>Name = ''Cloudflare'', URL = ''https://www.cloudflare.com'',
      Interval = 5 * Second, Timeout = 3 * Second, ExpectedStatus = 200\<rparr>,
     \<lparr>Name = ''GitHub'', URL = ''https://api.github.com'',
      Interval = 5 * Second, Timeout = 3 * Second, ExpectedStatus = 200\<rparr>,
     \<lparr>Name = ''Example (should work)'', URL = ''https://example.com'',
      Interval = 5 * Second, Timeout = 3 * Second, ExpectedStatus = 200\<rparr>,
     \<lparr>Name = ''Bad Endpoint (should fail)'', URL = ''https://this-does-not-exist-12345.com'',
      Interval = 10 * Second, Timeout = 2 * Second, ExpectedStatus = 200\<rparr>]"

section \<open>Formatting integers\<close>

text \<open>The verb \<^verbatim>\<open>%d\<close> of \<^verbatim>\<open>fmt.Sprintf\<close>: decimal digits, a minus sign for negatives.\<close>

definition digit_char :: "nat \<Rightarrow> char" where
  "digit_char d = ''0123456789'' ! d"

fun nat_dec :: "nat \<Rightarrow> string" where
  "nat_dec n = (if n < 10 then [digit_char n] else nat_dec (n div 10) @ [digit_char (n mod 10)])"

definition fmt_d :: "int \<Rightarrow> string" where
  "fmt_d i = (if i < 0 then CHR ''-'' # nat_dec (nat (- i)) else nat_dec (nat i))"

section \<open>Probing one endpoint\<close>

text \<open>
  What the network and the clock give to one call of \<^verbatim>\<open>checkEndpoint\<close>:
  \<^verbatim>\<open>http.NewRequestWithContext\<close> fails, or \<^verbatim>\<open>client.Do\<close> fails, or a response with a
  status code arrives; \<open>t_start\<close> is \<^verbatim>\<open>time.Now()\<close> before \<^verbatim>\<open>Do\<close>, \<open>t_done\<close> the clock
  when \<^verbatim>\<open>time.Since(start)\<close> is taken, \<open>t_update\<close> the clock inside \<^verbatim>\<open>updateStatus\<close>.
\<close>

datatype http_outcome = RequestError string | DoError string | Response int

record probe =
  outcome :: http_outcome
  t_start :: time
  t_done :: time
  t_update :: time

definition updateStatus ::
  "HealthChecker \<Rightarrow> Endpoint \<Rightarrow> bool \<Rightarrow> duration \<Rightarrow> string \<Rightarrow> time \<Rightarrow> HealthChecker" where
  "updateStatus hc ep healthy latency errMsg now =
     hc\<lparr>statuses := (statuses hc)(Name ep \<mapsto>
       \<lparr>Endpoint = ep, Healthy = healthy, Latency = latency, LastCheck = now, Error = errMsg\<rparr>)\<rparr>"

definition checkEndpoint :: "HealthChecker \<Rightarrow> Endpoint \<Rightarrow> probe \<Rightarrow> HealthChecker" where
  "checkEndpoint hc ep p =
     (case outcome p of
        RequestError err \<Rightarrow> updateStatus hc ep False 0 err (t_update p)
      | DoError err \<Rightarrow> updateStatus hc ep False (t_done p - t_start p) err (t_update p)
      | Response statusCode \<Rightarrow>
          (let latency = t_done p - t_start p;
               healthy = (statusCode = ExpectedStatus ep);
               errMsg = (if \<not> healthy
                         then ''status '' @ fmt_d statusCode @ '' (expected '' @
                              fmt_d (ExpectedStatus ep) @ '')''
                         else [])
           in updateStatus hc ep healthy latency errMsg (t_update p)))"

section \<open>Loading the configuration\<close>

text \<open>
  \<^verbatim>\<open>os.ReadFile\<close> and \<^verbatim>\<open>json.Unmarshal\<close> belong to the standard library: they are
  parameters, each returning the error (its message) or the value.
\<close>

definition set_defaults :: "Endpoint \<Rightarrow> Endpoint" where
  "set_defaults e =
     (let e1 = (if Interval e = 0 then e\<lparr>Interval := 5 * Second\<rparr> else e);
          e2 = (if Timeout e1 = 0 then e1\<lparr>Timeout := 3 * Second\<rparr> else e1);
          e3 = (if ExpectedStatus e2 = 0 then e2\<lparr>ExpectedStatus := 200\<rparr> else e2)
      in e3)"

definition loadEndpoints ::
  "(string \<Rightarrow> string + string) \<Rightarrow> (string \<Rightarrow> string + Endpoint list) \<Rightarrow> string
     \<Rightarrow> string + Endpoint list" where
  "loadEndpoints readFile unmarshal filename =
     (case readFile filename of
        Inl err \<Rightarrow> Inl err
      | Inr data \<Rightarrow>
          (case unmarshal data of
             Inl err \<Rightarrow> Inl err
           | Inr eps \<Rightarrow> Inr (map set_defaults eps)))"

section \<open>The per-endpoint monitor\<close>

text \<open>
  \<^verbatim>\<open>monitorEndpoint\<close>: \<^verbatim>\<open>time.NewTicker\<close> panics on a non-positive interval; otherwise one
  check at once, then the loop. Each element of the event list is the case the
  \<^verbatim>\<open>select\<close> takes in one iteration; with no event left the goroutine is blocked in the
  \<^verbatim>\<open>select\<close>. \<open>env k\<close> is what the network and the clock give to the \<open>k\<close>-th check, and
  the result counts the checks made.
\<close>

datatype select_case = CtxDone | TickerC

datatype monitor_result =
    TickerPanic
  | Selecting HealthChecker nat
  | Returned HealthChecker nat

fun monitor_loop ::
  "Endpoint \<Rightarrow> (nat \<Rightarrow> probe) \<Rightarrow> select_case list \<Rightarrow> HealthChecker \<Rightarrow> nat \<Rightarrow> monitor_result" where
  "monitor_loop ep env [] hc k = Selecting hc k"
| "monitor_loop ep env (CtxDone # evs) hc k = Returned hc k"
| "monitor_loop ep env (TickerC # evs) hc k =
     monitor_loop ep env evs (checkEndpoint hc ep (env k)) (Suc k)"

definition monitorEndpoint ::
  "Endpoint \<Rightarrow> (nat \<Rightarrow> probe) \<Rightarrow> select_case list \<Rightarrow> HealthChecker \<Rightarrow> monitor_result" where
  "monitorEndpoint ep env evs hc =
     (if Interval ep \<le> 0 then TickerPanic
      else monitor_loop ep env evs (checkEndpoint hc ep (env 0)) 1)"

text \<open>A probe fails when it is anything but a response with the expected status.\<close>

definition probe_failed :: "Endpoint \<Rightarrow> probe \<Rightarrow> bool" where
  "probe_failed ep p \<longleftrightarrow> outcome p \<noteq> Response (ExpectedStatus ep)"

section \<open>Start-up\<close>

text \<open>
  \<^verbatim>\<open>main\<close> until every monitor goroutine waits in its loop: the endpoints are the
  defaults, or the loaded ones when a config file is named; a load error ends the process
  in \<^verbatim>\<open>log.Fatalf\<close>; otherwise the checker is built with an empty status map and
  \<^verbatim>\<open>monitorEndpoint\<close> is started for each index of the endpoint list. A monitor that panics
  in \<^verbatim>\<open>time.NewTicker\<close> ends the whole process (the panic is not recovered, and its message
  does not name the endpoint), whatever the other monitors have done by then. \<open>envs i\<close> is
  what the network and the clock give to the checks of monitor \<open>i\<close>.
\<close>

datatype startup = Fatal string | TickerPanicked | Started HealthChecker "Endpoint list"

definition main_startup ::
  "(string \<Rightarrow> string + string) \<Rightarrow> (string \<Rightarrow> string + Endpoint list) \<Rightarrow> string \<Rightarrow>
     (nat \<Rightarrow> nat \<Rightarrow> probe) \<Rightarrow> startup" where
  "main_startup readFile unmarshal configFile envs =
     (case (if configFile \<noteq> [] then loadEndpoints readFile unmarshal configFile
            else Inr defaultEndpoints) of
        Inl err \<Rightarrow> Fatal (''Failed to load config: '' @ err)
      | Inr eps \<Rightarrow>
          (let hc = \<lparr>endpoints = eps, statuses = Map.empty\<rparr>
           in if list_ex (\<lambda>i. case monitorEndpoint (eps ! i) (envs i) [] hc of
                                  TickerPanic \<Rightarrow> True | _ \<Rightarrow> False) [0..<length eps]
              then TickerPanicked
              else Started hc (map (\<lambda>i. eps ! i) [0..<length eps])))"

text \<open>
  The validation the specification asks of a target list, in its words: positive
  interval, positive timeout, non-empty address, no duplicate identities. (An
  \<^verbatim>\<open>Endpoint\<close> has no probe kind: every endpoint is probed over HTTP.)
\<close>

definition spec_valid_targets :: "Endpoint list \<Rightarrow> bool" where
  "spec_valid_targets eps \<longleftrightarrow>
     list_all (\<lambda>e. 0 < Interval e \<and> 0 < Timeout e \<and> URL e \<noteq> []) eps \<and> distinct (map Name eps)"

section \<open>The status display\<close>

text \<open>
  \<^verbatim>\<open>printStatus\<close> prints a header and then one line per configured endpoint, by one of
  three \<^verbatim>\<open>Printf\<close> calls. A line is kept here as the call and its arguments; the icons
  are the UTF-8 bytes of the source's literals. (The latency is printed in milliseconds
  through a floating-point conversion, which is left out: the line keeps the duration.)
\<close>

datatype icon = Hourglass | CheckMark | CrossMark

fun icon_utf8 :: "icon \<Rightarrow> string" where
  "icon_utf8 Hourglass = [CHR 0xE2, CHR 0x8F, CHR 0xB3]"
| "icon_utf8 CheckMark = [CHR 0xE2, CHR 0x9C, CHR 0x85]"
| "icon_utf8 CrossMark = [CHR 0xE2, CHR 0x9D, CHR 0x8C]"

datatype status_line =
    Header
  | CheckingLine string
  | ErrorLine icon string duration string
  | PlainLine icon string duration

definition print_endpoint :: "HealthChecker \<Rightarrow> Endpoint \<Rightarrow> status_line" where
  "print_endpoint hc ep =
     (case statuses hc (Name ep) of
        None \<Rightarrow> CheckingLine (Name ep)
      | Some status \<Rightarrow>
          (let icon = (if \<not> Healthy status then CrossMark else CheckMark)
           in if Error status \<noteq> [] then ErrorLine icon (Name ep) (Latency status) (Error status)
              else PlainLine icon (Name ep) (Latency status)))"

definition printStatus :: "HealthChecker \<Rightarrow> status_line list" where
  "printStatus hc = Header # map (print_endpoint hc) (endpoints hc)"

fun line_icon :: "status_line \<Rightarrow> icon option" where
  "line_icon Header = None"
| "line_icon (CheckingLine n) = Some Hourglass"
| "line_icon (ErrorLine i n l e) = Some i"
| "line_icon (PlainLine i n l) = Some i"

fun line_name :: "status_line \<Rightarrow> string" where
  "line_name Header = []"
| "line_name (CheckingLine n) = n"
| "line_name (ErrorLine i n l e) = n"
| "line_name (PlainLine i n l) = n"

text \<open>
  The probes completed so far, in the order in which they wrote their status: each is the
  index of its endpoint in the configured list and what the probe met.
\<close>

fun run_probes :: "HealthChecker \<Rightarrow> (nat \<times> probe) list \<Rightarrow> HealthChecker" where
  "run_probes hc [] = hc"
| "run_probes hc ((i, p) # ps) = run_probes (checkEndpoint hc (endpoints hc ! i) p) ps"

definition probed :: "(nat \<times> probe) list \<Rightarrow> nat \<Rightarrow> bool" where
  "probed ps i \<longleftrightarrow> i \<in> fst ` set ps"

section \<open>ICMP ping\<close>

text \<open>
  One call of \<^verbatim>\<open>ping\<close>: the first step that fails, or an echo reply; \<open>p_start\<close> is
  \<^verbatim>\<open>time.Now()\<close> before the write, \<open>p_done\<close> the clock when \<^verbatim>\<open>ReadFrom\<close> has returned.
  The result is the pair of the duration and the error, \<open>None\<close> for \<^verbatim>\<open>nil\<close>.
\<close>

datatype ping_outcome =
    ListenError string
  | MarshalError string
  | DeadlineError string
  | WriteError string
  | ReadError string
  | ParseError string
  | UnexpectedType string
  | EchoReply

record ping_env =
  ping_outcome :: ping_outcome
  p_start :: time
  p_done :: time

definition ping :: "ping_env \<Rightarrow> duration \<times> string option" where
  "ping env =
     (case ping_outcome env of
        ListenError e \<Rightarrow> (0, Some (''listen error: '' @ e))
      | MarshalError e \<Rightarrow> (0, Some (''marshal error: '' @ e))
      | DeadlineError e \<Rightarrow> (0, Some (''set deadline: '' @ e))
      | WriteError e \<Rightarrow> (0, Some (''write error: '' @ e))
      | ReadError e \<Rightarrow> (0, Some (''read error: '' @ e))
      | ParseError e \<Rightarrow> (0, Some (''parse error: '' @ e))
      | UnexpectedType t \<Rightarrow> (0, Some (''unexpected ICMP type: '' @ t))
      | EchoReply \<Rightarrow> (p_done env - p_start env, None))"

text \<open>The status that one check of an endpoint writes, and the latest probe of an endpoint.\<close>

definition probe_status :: "Endpoint \<Rightarrow> probe \<Rightarrow> HealthStatus" where
  "probe_status ep p =
     the (statuses (checkEndpoint \<lparr>endpoints = [], statuses = Map.empty\<rparr> ep p) (Name ep))"

definition last_probe :: "(nat \<times> probe) list \<Rightarrow> nat \<Rightarrow> probe" where
  "last_probe ps i = snd (last (filter (\<lambda>(j, p). j = i) ps))"

section \<open>Port scanner\<close>

text \<open>
  Go's \<^verbatim>\<open>int\<close> is 64 bits wide on the 64-bit platforms; \<^verbatim>\<open>port++\<close> wraps around.
\<close>

type_synonym go_int = "64 word"

definition MaxInt :: go_int where
  "MaxInt = 0x7FFFFFFFFFFFFFFF"

record ScanResult =
  Port :: go_int
  Open :: bool
  Banner :: string

text \<open>
  \<^verbatim>\<open>scanPorts\<close> runs four kinds of goroutine over two buffered channels of capacity 100.
  The state holds where each goroutine stands:
  \<^item> the producer, in its loop \<^verbatim>\<open>for port := startPort; port <= endPort; port++\<close> about to
    send \<open>port\<close>, or about to close the channel \<open>ports\<close>, or finished;
  \<^item> each worker, at the receive of \<^verbatim>\<open>for port := range ports\<close>, or about to call
    \<^verbatim>\<open>scanPort\<close> on a port, or about to send an open result, or finished (\<^verbatim>\<open>wg.Done\<close>);
  \<^item> the goroutine that waits for the workers and closes \<open>results\<close>;
  \<^item> the caller, collecting from \<open>results\<close> into \<open>openPorts\<close> until it returns.
  The list \<open>dialed\<close> is a log of every call of \<^verbatim>\<open>net.DialTimeout\<close>: the worker, the port
  and whether the connection was made. The host and the timeout only reach the dial.
\<close>

datatype producer = Sending go_int | Closing | ProducerDone

datatype worker = Receiving | Scanning go_int | Publishing ScanResult | WorkerDone

datatype closer = Waiting | CloserDone

record scan_state =
  producer :: producer
  ports :: "go_int list"
  ports_closed :: bool
  workers :: "worker list"
  closer :: closer
  results :: "ScanResult list"
  results_closed :: bool
  openPorts :: "ScanResult list"
  returned :: bool
  dialed :: "(nat \<times> go_int \<times> bool) list"

text \<open>
  The state once \<^verbatim>\<open>scanPorts\<close> has made its channels and started its goroutines:
  \<^verbatim>\<open>for i := 0; i < workers; i++\<close> starts no worker when \<open>workers\<close> is not positive.
\<close>

definition scanPorts_init :: "go_int \<Rightarrow> go_int \<Rightarrow> go_int \<Rightarrow> scan_state" where
  "scanPorts_init startPort endPort nworkers =
     \<lparr>producer = (if sint startPort \<le> sint endPort then Sending startPort else Closing),
      ports = [], ports_closed = False,
      workers = replicate (nat (sint nworkers)) Receiving,
      closer = Waiting,
      results = [], results_closed = False,
      openPorts = [], returned = False, dialed = []\<rparr>"

text \<open>
  One step of one goroutine. A send needs room in the buffer; a receive takes the oldest
  element; the \<^verbatim>\<open>range\<close> loop of a worker ends when \<open>ports\<close> is closed and empty; a dial
  either connects (the worker then has an open result to send) or fails (the worker goes
  back to the receive, publishing nothing); \<open>results\<close> is closed once every worker is
  finished; the caller returns when \<open>results\<close> is closed and empty. A step that cannot be
  taken in a state gives \<open>None\<close>.
\<close>

datatype action =
    SendPort
  | ClosePorts
  | ReceivePort nat
  | WorkerExit nat
  | Dial nat bool
  | Publish nat
  | CloseResults
  | CollectResult
  | Return

fun fire :: "go_int \<Rightarrow> action \<Rightarrow> scan_state \<Rightarrow> scan_state option" where
  "fire endPort SendPort s =
     (case producer s of
        Sending p \<Rightarrow>
          if length (ports s) < 100
          then Some (s\<lparr>ports := ports s @ [p],
                       producer := (if sint (p + 1) \<le> sint endPort then Sending (p + 1) else Closing)\<rparr>)
          else None
      | _ \<Rightarrow> None)"
| "fire endPort ClosePorts s =
     (case producer s of
        Closing \<Rightarrow> Some (s\<lparr>ports_closed := True, producer := ProducerDone\<rparr>)
      | _ \<Rightarrow> None)"
| "fire endPort (ReceivePort i) s =
     (if i < length (workers s) \<and> workers s ! i = Receiving
      then (case ports s of
              p # rest \<Rightarrow> Some (s\<lparr>ports := rest, workers := (workers s)[i := Scanning p]\<rparr>)
            | [] \<Rightarrow> None)
      else None)"
| "fire endPort (WorkerExit i) s =
     (if i < length (workers s) \<and> workers s ! i = Receiving \<and> ports s = [] \<and> ports_closed s
      then Some (s\<lparr>workers := (workers s)[i := WorkerDone]\<rparr>)
      else None)"
| "fire endPort (Dial i ok) s =
     (if i < length (workers s)
      then (case workers s ! i of
              Scanning p \<Rightarrow>
                Some (s\<lparr>workers := (workers s)[i := (if ok
                            then Publishing \<lparr>Port = p, Open = True, Banner = []\<rparr>
                            else Receiving)],
                        dialed := dialed s @ [(i, p, ok)]\<rparr>)
            | _ \<Rightarrow> None)
      else None)"
| "fire endPort (Publish i) s =
     (if i < length (workers s)
      then (case workers s ! i of
              Publishing r \<Rightarrow>
                if length (results s) < 100
                then Some (s\<lparr>results := results s @ [r], workers := (workers s)[i := Receiving]\<rparr>)
                else None
            | _ \<Rightarrow> None)
      else None)"
| "fire endPort CloseResults s =
     (if closer s = Waiting \<and> list_all (\<lambda>w. w = WorkerDone) (workers s)
      then Some (s\<lparr>results_closed := True, closer := CloserDone\<rparr>)
      else None)"
| "fire endPort CollectResult s =
     (if returned s then None
      else (case results s of
              r # rest \<Rightarrow> Some (s\<lparr>results := rest, openPorts := openPorts s @ [r]\<rparr>)
            | [] \<Rightarrow> None))"
| "fire endPort Return s =
     (if \<not> returned s \<and> results s = [] \<and> results_closed s
      then Some (s\<lparr>returned := True\<rparr>)
      else None)"

text \<open>An interleaving of the goroutines is a list of steps, taken in order.\<close>

fun run :: "go_int \<Rightarrow> scan_state \<Rightarrow> action list \<Rightarrow> scan_state option" where
  "run endPort s [] = Some s"
| "run endPort s (a # as) =
     (case fire endPort a s of None \<Rightarrow> None | Some s' \<Rightarrow> run endPort s' as)"

text \<open>
  The jobs of a scan are the ports from \<open>startPort\<close> to \<open>endPort\<close>, in order; the ports
  that were dialed; the results of the dials that connected.
\<close>

definition jobs :: "go_int \<Rightarrow> go_int \<Rightarrow> go_int list" where
  "jobs startPort endPort = map word_of_int [sint startPort..sint endPort]"

definition dial_ports :: "scan_state \<Rightarrow> go_int list" where
  "dial_ports s = map (\<lambda>d. fst (snd d)) (dialed s)"

definition hits :: "scan_state \<Rightarrow> ScanResult list" where
  "hits s = map (\<lambda>d. \<lparr>Port = fst (snd d), Open = True, Banner = []\<rparr>) (filter (\<lambda>d. snd (snd d)) (dialed s))"

text \<open>
  Invariants of the scan: every job is in exactly one place (still with the producer, in
  the channel, held by a worker, or dialed); every dial that connected has its result in
  exactly one place; the channels are closed by the goroutines that own them. The
  potential bounds the number of steps still possible.
\<close>

fun pending :: "go_int \<Rightarrow> producer \<Rightarrow> go_int list" where
  "pending e (Sending p) = jobs p e"
| "pending e Closing = []"
| "pending e ProducerDone = []"

fun scanning :: "worker \<Rightarrow> go_int list" where
  "scanning (Scanning p) = [p]"
| "scanning w = []"

fun publishing :: "worker \<Rightarrow> ScanResult list" where
  "publishing (Publishing r) = [r]"
| "publishing w = []"

fun weight :: "worker \<Rightarrow> nat" where
  "weight Receiving = 1"
| "weight (Scanning p) = 5"
| "weight (Publishing r) = 4"
| "weight WorkerDone = 0"

definition potential :: "go_int \<Rightarrow> scan_state \<Rightarrow> nat" where
  "potential e s =
     7 * length (pending e (producer s)) + (if producer s = ProducerDone then 0 else 1) +
     6 * length (ports s) + sum_list (map weight (workers s)) + 2 * length (results s) +
     (if closer s = Waiting then 1 else 0) + (if returned s then 0 else 1)"

definition flow_inv :: "go_int \<Rightarrow> go_int \<Rightarrow> scan_state \<Rightarrow> bool" where
  "flow_inv s e st \<longleftrightarrow>
     (case producer st of Sending p \<Rightarrow> sint p \<le> sint e | _ \<Rightarrow> True) \<and>
     mset (dial_ports st) + mset (concat (map scanning (workers st))) + mset (ports st) +
       mset (pending e (producer st)) = mset (jobs s e)"

definition result_inv :: "scan_state \<Rightarrow> bool" where
  "result_inv st \<longleftrightarrow>
     mset (openPorts st) + mset (results st) + mset (concat (map publishing (workers st))) =
       mset (hits st)"

definition control_inv :: "scan_state \<Rightarrow> bool" where
  "control_inv st \<longleftrightarrow>
     (ports_closed st \<longleftrightarrow> producer st = ProducerDone) \<and>
     (WorkerDone \<in> set (workers st) \<longrightarrow> ports_closed st \<and> ports st = []) \<and>
     (results_closed st \<longleftrightarrow> closer st = CloserDone) \<and>
     (results_closed st \<longrightarrow> list_all (\<lambda>w. w = WorkerDone) (workers st)) \<and>
     (returned st \<longrightarrow> results_closed st \<and> results st = [])"

definition scan_inv :: "go_int \<Rightarrow> go_int \<Rightarrow> scan_state \<Rightarrow> bool" where
  "scan_inv s e st \<longleftrightarrow> flow_inv s e st \<and> result_inv st \<and> control_inv st"

definition never_closing :: "scan_state \<Rightarrow> bool" where
  "never_closing st \<longleftrightarrow>
     (\<exists>p. producer st = Sending p) \<and> \<not> ports_closed st \<and> workers st \<noteq> [] \<and>
     WorkerDone \<notin> set (workers st) \<and> closer st = Waiting \<and> \<not> results_closed st \<and> \<not> returned st"

text \<open>
  Two interleavings: a scan of ports 7 to 9 by two workers in which port 8 is open, and
  a scan of an empty range by three workers.
\<close>

definition example_schedule :: "action list" where
  "example_schedule =
     [SendPort, SendPort, ReceivePort 1, ReceivePort 0, Dial 0 True, Dial 1 False, SendPort,
      ClosePorts, Publish 0, ReceivePort 1, WorkerExit 0, Dial 1 False, CollectResult, WorkerExit 1,
      CloseResults, Return]"

definition idle_schedule :: "action list" where
  "idle_schedule = [ClosePorts, WorkerExit 0, WorkerExit 1, WorkerExit 2, CloseResults, Return]"

text \<open>
  An interleaving for a scan by one worker whose end port is the largest \<^verbatim>\<open>int\<close>: \<open>n\<close>
  rounds of send, receive and failed dial, and the state after \<open>k\<close> such rounds.
\<close>

definition rounds :: "nat \<Rightarrow> action list" where
  "rounds n = concat (replicate n [SendPort, ReceivePort 0, Dial 0 False])"

definition after_rounds :: "nat \<Rightarrow> scan_state" where
  "after_rounds k =
     \<lparr>producer = Sending (MaxInt + of_nat k), ports = [], ports_closed = False,
      workers = [Receiving], closer = Waiting, results = [], results_closed = False,
      openPorts = [], returned = False,
      dialed = map (\<lambda>j. (0, MaxInt + of_nat j, False)) [0..<k]\<rparr>"

section \<open>Example inputs\<close>

text \<open>
  A file system with the one file \<^verbatim>\<open>endpoints.json\<close>, a parser that yields a given list for
  its contents, and some endpoint lists.
\<close>

definition cfg_read :: "string \<Rightarrow> string + string" where
  "cfg_read f = (if f = ''endpoints.json'' then Inr ''[...]'' else Inl ''open: no such file or directory'')"

definition cfg_parse :: "Endpoint list \<Rightarrow> string \<Rightarrow> string + Endpoint list" where
  "cfg_parse eps d = (if d = ''[...]'' then Inr eps else Inl ''unexpected end of JSON input'')"

definition bad_targets :: "Endpoint list" where
  "bad_targets =
     [\<lparr>Name = ''a'', URL = '''', Interval = 7, Timeout = - 1, ExpectedStatus = 200\<rparr>,
      \<lparr>Name = ''a'', URL = ''http://a'', Interval = 0, Timeout = 0, ExpectedStatus = 0\<rparr>]"

definition bad_targets_loaded :: "Endpoint list" where
  "bad_targets_loaded =
     [\<lparr>Name = ''a'', URL = '''', Interval = 7, Timeout = - 1, ExpectedStatus = 200\<rparr>,
      \<lparr>Name = ''a'', URL = ''http://a'', Interval = 5000000000, Timeout = 3000000000,
       ExpectedStatus = 200\<rparr>]"

definition negative_interval_targets :: "Endpoint list" where
  "negative_interval_targets =
     [\<lparr>Name = ''a'', URL = ''http://a'', Interval = Second, Timeout = Second, ExpectedStatus = 200\<rparr>,
      \<lparr>Name = ''b'', URL = ''http://b'', Interval = - 1, Timeout = Second, ExpectedStatus = 200\<rparr>]"

definition no_probes :: "nat \<Rightarrow> nat \<Rightarrow> probe" where
  "no_probes i k = \<lparr>outcome = DoError ''connection refused'', t_start = 0, t_done = 0, t_update = 0\<rparr>"

definition three_targets :: "Endpoint list" where
  "three_targets =
     [\<lparr>Name = ''a'', URL = ''http://a'', Interval = Second, Timeout = Second, ExpectedStatus = 200\<rparr>,
      \<lparr>Name = ''b'', URL = ''http://b'', Interval = Second, Timeout = Second, ExpectedStatus = 200\<rparr>,
      \<lparr>Name = ''c'', URL = ''http://c'', Interval = Second, Timeout = Second, ExpectedStatus = 200\<rparr>]"

definition same_name_targets :: "Endpoint list" where
  "same_name_targets =
     [\<lparr>Name = ''api'', URL = ''http://a'', Interval = Second, Timeout = Second, ExpectedStatus = 200\<rparr>,
      \<lparr>Name = ''api'', URL = ''http://b'', Interval = Second, Timeout = Second, ExpectedStatus = 200\<rparr>]"

definition probe_with :: "http_outcome \<Rightarrow> probe" where
  "probe_with r = \<lparr>outcome = r, t_start = 10, t_done = 17, t_update = 18\<rparr>"

section \<open>Results\<close>

lemma statuses_updateStatus:
  "statuses (updateStatus hc ep h l e n) (Name ep) =
     Some \<lparr>Endpoint = ep, Healthy = h, Latency = l, LastCheck = n, Error = e\<rparr>"
  by (simp add: updateStatus_def)

text \<open>
  C3. When an HTTP probe receives a response, the recorded status is healthy exactly when
  the observed status code equals the endpoint's expected status; on a mismatch the status
  is unhealthy and its error text is \<^verbatim>\<open>status <observed> (expected <expected>)\<close>, and on a
  match the error text is empty.
\<close>

theorem checkEndpoint_response:
  "outcome p = Response code \<Longrightarrow>
   (\<exists>st. statuses (checkEndpoint hc ep p) (Name ep) = Some st \<and>
      (Healthy st \<longleftrightarrow> code = ExpectedStatus ep) \<and>
      (code \<noteq> ExpectedStatus ep \<longrightarrow>
         Error st = ''status '' @ fmt_d code @ '' (expected '' @ fmt_d (ExpectedStatus ep) @ '')'') \<and>
      (code = ExpectedStatus ep \<longrightarrow> Error st = []))"
  by (simp add: checkEndpoint_def statuses_updateStatus Let_def)

theorem checkEndpoint_response_witness:
  "outcome \<lparr>outcome = Response 200, t_start = 0, t_done = 5, t_update = 6\<rparr> = Response 200 \<and>
   (\<exists>st. statuses (checkEndpoint \<lparr>endpoints = [], statuses = Map.empty\<rparr>
              \<lparr>Name = ''stub'', URL = ''http://127.0.0.1:8080'', Interval = Second,
               Timeout = Second, ExpectedStatus = 201\<rparr>
              \<lparr>outcome = Response 200, t_start = 0, t_done = 5, t_update = 6\<rparr>) ''stub'' = Some st \<and>
      \<not> Healthy st \<and> Error st = ''status 200 (expected 201)'')"
  using checkEndpoint_response
    [of "\<lparr>outcome = Response 200, t_start = 0, t_done = 5, t_update = 6\<rparr>" 200
        "\<lparr>endpoints = [], statuses = Map.empty\<rparr>"
        "\<lparr>Name = ''stub'', URL = ''http://127.0.0.1:8080'', Interval = Second,
               Timeout = Second, ExpectedStatus = 201\<rparr>"]
  by (simp add: fmt_d_def digit_char_def)

lemma set_defaults_fields:
  "Name (set_defaults e) = Name e"
  "URL (set_defaults e) = URL e"
  "Interval (set_defaults e) = (if Interval e = 0 then 5 * Second else Interval e)"
  "Timeout (set_defaults e) = (if Timeout e = 0 then 3 * Second else Timeout e)"
  "ExpectedStatus (set_defaults e) = (if ExpectedStatus e = 0 then 200 else ExpectedStatus e)"
  by (simp_all add: set_defaults_def Let_def)

text \<open>
  C9. \<^verbatim>\<open>loadEndpoints\<close> returns an error exactly when the file cannot be read or its
  contents cannot be parsed. Otherwise it returns the parsed list, entry by entry: name and
  URL as parsed; interval, timeout and expected status replaced by 5 seconds, 3 seconds
  and 200 exactly where they are zero, and unchanged where they are not, negative
  durations included.
\<close>

theorem loadEndpoints_defaults:
  "(isl (loadEndpoints rf um fn) \<longleftrightarrow> isl (rf fn) \<or> (\<exists>d. rf fn = Inr d \<and> isl (um d))) \<and>
   (\<forall>d eps. rf fn = Inr d \<and> um d = Inr eps \<longrightarrow>
      (\<exists>out. loadEndpoints rf um fn = Inr out \<and> length out = length eps \<and>
         (\<forall>i<length eps.
            Name (out ! i) = Name (eps ! i) \<and> URL (out ! i) = URL (eps ! i) \<and>
            Interval (out ! i) = (if Interval (eps ! i) = 0 then 5 * Second else Interval (eps ! i)) \<and>
            Timeout (out ! i) = (if Timeout (eps ! i) = 0 then 3 * Second else Timeout (eps ! i)) \<and>
            ExpectedStatus (out ! i) =
              (if ExpectedStatus (eps ! i) = 0 then 200 else ExpectedStatus (eps ! i)))))"
  by (auto simp: loadEndpoints_def set_defaults_fields split: sum.splits)

theorem loadEndpoints_defaults_witness:
  "loadEndpoints cfg_read
      (cfg_parse [\<lparr>Name = ''a'', URL = ''http://a'', Interval = 0, Timeout = 0, ExpectedStatus = 0\<rparr>,
                  \<lparr>Name = ''b'', URL = '''', Interval = - 1, Timeout = - 7, ExpectedStatus = 404\<rparr>])
      ''endpoints.json'' =
    Inr [\<lparr>Name = ''a'', URL = ''http://a'', Interval = 5000000000, Timeout = 3000000000, ExpectedStatus = 200\<rparr>,
         \<lparr>Name = ''b'', URL = '''', Interval = - 1, Timeout = - 7, ExpectedStatus = 404\<rparr>] \<and>
   isl (loadEndpoints cfg_read (cfg_parse []) ''missing.json'')"
  using loadEndpoints_defaults [of cfg_read "cfg_parse [\<lparr>Name = ''a'', URL = ''http://a'', Interval = 0, Timeout = 0, ExpectedStatus = 0\<rparr>,
                  \<lparr>Name = ''b'', URL = '''', Interval = - 1, Timeout = - 7, ExpectedStatus = 404\<rparr>]" "''endpoints.json''"]
    loadEndpoints_defaults [of cfg_read "cfg_parse []" "''missing.json''"]
  by (simp add: cfg_read_def cfg_parse_def loadEndpoints_def set_defaults_def Second_def)

text \<open>
  C7, as the code has it. An HTTP check records the time from just before \<^verbatim>\<open>client.Do\<close>
  to its return, whether a response arrived or the transport failed, and records 0 when
  the request could not be built. \<^verbatim>\<open>ping\<close> returns the time from send to reply only for
  an echo reply; on every failure it returns the duration 0 with the error.
\<close>

theorem latency_by_strategy:
  "(\<exists>st. statuses (checkEndpoint hc ep p) (Name ep) = Some st \<and>
      Latency st = (case outcome p of RequestError e \<Rightarrow> 0 | _ \<Rightarrow> t_done p - t_start p)) \<and>
   (ping_outcome env = EchoReply \<longrightarrow> ping env = (p_done env - p_start env, None)) \<and>
   (ping_outcome env \<noteq> EchoReply \<longrightarrow> fst (ping env) = 0 \<and> snd (ping env) \<noteq> None)"
  by (cases "outcome p"; cases "ping_outcome env")
     (simp_all add: checkEndpoint_def statuses_updateStatus Let_def ping_def)

theorem latency_by_strategy_witness:
  "(\<exists>st. statuses (checkEndpoint \<lparr>endpoints = [], statuses = Map.empty\<rparr> (three_targets ! 0)
             (probe_with (DoError ''connection refused''))) ''a'' = Some st \<and> Latency st = 7) \<and>
   ping \<lparr>ping_outcome = EchoReply, p_start = 3, p_done = 8\<rparr> = (5, None) \<and>
   fst (ping \<lparr>ping_outcome = WriteError ''sendto: network is unreachable'', p_start = 3, p_done = 8\<rparr>) = 0"
  using latency_by_strategy [of "\<lparr>endpoints = [], statuses = Map.empty\<rparr>" "three_targets ! 0"
      "probe_with (DoError ''connection refused'')" "\<lparr>ping_outcome = EchoReply, p_start = 3, p_done = 8\<rparr>"]
    latency_by_strategy [of "\<lparr>endpoints = [], statuses = Map.empty\<rparr>" "three_targets ! 0"
      "probe_with (DoError ''connection refused'')"
      "\<lparr>ping_outcome = WriteError ''sendto: network is unreachable'', p_start = 3, p_done = 8\<rparr>"]
  by (simp add: three_targets_def probe_with_def)

text \<open>
  C7 as stated fails for ICMP: a ping whose read times out two seconds after the send
  returns the duration 0.
\<close>

theorem ping_failure_latency_zero:
  "fst (ping \<lparr>ping_outcome = ReadError ''i/o timeout'', p_start = 0, p_done = 2 * Second\<rparr>) \<noteq>
     p_done \<lparr>ping_outcome = ReadError ''i/o timeout'', p_start = 0, p_done = 2 * Second\<rparr> -
     p_start \<lparr>ping_outcome = ReadError ''i/o timeout'', p_start = 0, p_done = 2 * Second\<rparr>"
  by (simp add: ping_def Second_def)

lemma checkEndpoint_eq:
  "checkEndpoint hc ep p = hc\<lparr>statuses := (statuses hc)(Name ep \<mapsto> probe_status ep p)\<rparr>"
  by (cases "outcome p") (simp_all add: probe_status_def checkEndpoint_def updateStatus_def Let_def)

lemma endpoints_checkEndpoint [simp]: "endpoints (checkEndpoint hc ep p) = endpoints hc"
  by (simp add: checkEndpoint_eq)

lemma statuses_checkEndpoint:
  "statuses (checkEndpoint hc ep p) = (statuses hc)(Name ep \<mapsto> probe_status ep p)"
  by (simp add: checkEndpoint_eq)

lemma Healthy_probe_status: "Healthy (probe_status ep p) \<longleftrightarrow> \<not> probe_failed ep p"
  by (cases "outcome p")
     (auto simp: probe_status_def checkEndpoint_def updateStatus_def Let_def probe_failed_def)

lemma endpoints_run_probes [simp]: "endpoints (run_probes hc ps) = endpoints hc"
  by (induction hc ps rule: run_probes.induct) simp_all

lemma probed_Nil [simp]: "\<not> probed [] i"
  by (simp add: probed_def)

lemma probed_Cons [simp]: "probed ((j, p) # ps) i \<longleftrightarrow> j = i \<or> probed ps i"
  by (auto simp: probed_def)

lemma last_probe_Cons:
  "last_probe ((j, p) # ps) i = (if probed ps i then last_probe ps i else if j = i then p else last_probe ps i)"
proof -
  have "probed ps i \<longleftrightarrow> filter (\<lambda>(j, p). j = i) ps \<noteq> []"
    by (force simp: probed_def filter_empty_conv)
  then show ?thesis by (auto simp: last_probe_def)
qed

lemma statuses_run_probes:
  assumes "distinct (map Name (endpoints hc))" "i < length (endpoints hc)"
    "\<forall>q \<in> set ps. fst q < length (endpoints hc)"
  shows "statuses (run_probes hc ps) (Name (endpoints hc ! i)) =
           (if probed ps i then Some (probe_status (endpoints hc ! i) (last_probe ps i))
            else statuses hc (Name (endpoints hc ! i)))"
  using assms
proof (induction ps arbitrary: hc)
  case Nil
  then show ?case by simp
next
  case (Cons q ps)
  obtain j p where q: "q = (j, p)" by (cases q)
  let ?hc1 = "checkEndpoint hc (endpoints hc ! j) p"
  have j: "j < length (endpoints hc)" using Cons.prems(3) q by simp
  have names: "Name (endpoints hc ! j) = Name (endpoints hc ! i) \<longleftrightarrow> j = i"
    using Cons.prems(1,2) j nth_eq_iff_index_eq [of "map Name (endpoints hc)" j i] by simp
  have e1: "endpoints ?hc1 = endpoints hc" by simp
  have "statuses (run_probes ?hc1 ps) (Name (endpoints ?hc1 ! i)) =
      (if probed ps i then Some (probe_status (endpoints ?hc1 ! i) (last_probe ps i))
       else statuses ?hc1 (Name (endpoints ?hc1 ! i)))"
    by (rule Cons.IH) (use Cons.prems in \<open>simp_all add: e1\<close>)
  then have IH: "statuses (run_probes ?hc1 ps) (Name (endpoints hc ! i)) =
      (if probed ps i then Some (probe_status (endpoints hc ! i) (last_probe ps i))
       else statuses ?hc1 (Name (endpoints hc ! i)))"
    by (simp only: e1)
  have s1: "statuses ?hc1 (Name (endpoints hc ! i)) =
      (if j = i then Some (probe_status (endpoints hc ! i) p) else statuses hc (Name (endpoints hc ! i)))"
    using names by (auto simp: statuses_checkEndpoint)
  show ?case
    unfolding q run_probes.simps IH s1 last_probe_Cons probed_Cons by simp
qed

lemma line_icon_print_endpoint:
  "line_icon (print_endpoint hc ep) =
     (case statuses hc (Name ep) of None \<Rightarrow> Some Hourglass
      | Some st \<Rightarrow> Some (if Healthy st then CheckMark else CrossMark))"
  by (simp add: print_endpoint_def Let_def split: option.splits)

lemma line_name_print_endpoint: "line_name (print_endpoint hc ep) = Name ep"
  by (simp add: print_endpoint_def Let_def split: option.splits)

text \<open>
  C2, as the code has it. After any sequence of completed probes, \<^verbatim>\<open>printStatus\<close> prints the
  header and then exactly one line per configured endpoint, in configuration order. When
  the endpoint names are pairwise distinct, the line of an endpoint shows the hourglass
  exactly when that endpoint has not been probed, and otherwise the cross or the check mark
  of its latest probe; the three icons are three different byte strings.
\<close>

theorem printStatus_entries:
  assumes "\<forall>q \<in> set ps. fst q < length eps"
  shows "\<exists>es. printStatus (run_probes \<lparr>endpoints = eps, statuses = Map.empty\<rparr> ps) = Header # es \<and>
      length es = length eps \<and> map line_name es = map Name eps \<and>
      (distinct (map Name eps) \<longrightarrow>
         (\<forall>i<length eps.
            line_icon (es ! i) =
              Some (if \<not> probed ps i then Hourglass
                    else if probe_failed (eps ! i) (last_probe ps i) then CrossMark
                    else CheckMark))) \<and>
      distinct (map icon_utf8 [Hourglass, CheckMark, CrossMark])"
proof -
  let ?start = "\<lparr>endpoints = eps, statuses = Map.empty\<rparr>"
  let ?hc = "run_probes ?start ps"
  let ?es = "map (print_endpoint ?hc) eps"
  have 1: "printStatus ?hc = Header # ?es" by (simp add: printStatus_def)
  have 2: "map line_name ?es = map Name eps" by (simp add: line_name_print_endpoint)
  have 3: "line_icon (?es ! i) =
              Some (if \<not> probed ps i then Hourglass
                    else if probe_failed (eps ! i) (last_probe ps i) then CrossMark
                    else CheckMark)"
    if "distinct (map Name eps)" "i < length eps" for i
  proof -
    have "statuses ?hc (Name (eps ! i)) =
        (if probed ps i then Some (probe_status (eps ! i) (last_probe ps i)) else None)"
      using that assms statuses_run_probes [of ?start i ps] by simp
    then show ?thesis
      using that(2) by (simp add: line_icon_print_endpoint Healthy_probe_status)
  qed
  have 4: "distinct (map icon_utf8 [Hourglass, CheckMark, CrossMark])" by simp
  show ?thesis using 1 2 3 4 by (intro exI [of _ ?es]) simp
qed

theorem printStatus_entries_witness:
  "list_all (\<lambda>q. fst q < length three_targets)
      [(0, probe_with (Response 200)), (1, probe_with (Response 500))] \<and>
   printStatus (run_probes \<lparr>endpoints = three_targets, statuses = Map.empty\<rparr>
       [(0, probe_with (Response 200)), (1, probe_with (Response 500))]) =
     [Header, PlainLine CheckMark ''a'' 7, ErrorLine CrossMark ''b'' 7 ''status 500 (expected 200)'',
      CheckingLine ''c''] \<and>
   distinct (map Name three_targets) \<and>
   \<not> probed [(0, probe_with (Response 200)), (1, probe_with (Response 500))] 2"
proof -
  have valid: "\<forall>q \<in> set [(0, probe_with (Response 200)), (1, probe_with (Response 500))].
      fst q < length three_targets"
    by (simp add: three_targets_def)
  from printStatus_entries [OF valid] valid show ?thesis
    by (simp add: three_targets_def probe_with_def printStatus_def print_endpoint_def
        checkEndpoint_def updateStatus_def fmt_d_def digit_char_def Let_def)
qed

text \<open>
  C2 as stated fails when two endpoints share a name: after one healthy probe of the
  first, the line of the second, which was never probed, shows the check mark.
\<close>

theorem shared_name_hides_pending:
  "line_icon (printStatus (run_probes \<lparr>endpoints = same_name_targets, statuses = Map.empty\<rparr>
       [(0, probe_with (Response 200))]) ! 2) = Some CheckMark \<and>
   \<not> probed [(0, probe_with (Response 200))] 1"
  by (simp add: same_name_targets_def probe_with_def printStatus_def print_endpoint_def
      checkEndpoint_def updateStatus_def Let_def)

lemma monitor_loop_ticks:
  "CtxDone \<notin> set evs \<Longrightarrow>
   \<exists>hc'. monitor_loop ep env evs hc k = Selecting hc' (k + length evs) \<and>
     (evs = [] \<longrightarrow> hc' = hc) \<and>
     (evs \<noteq> [] \<longrightarrow> statuses hc' (Name ep) = Some (probe_status ep (env (k + length evs - 1))))"
proof (induction evs arbitrary: hc k)
  case Nil
  then show ?case by simp
next
  case (Cons e evs)
  then have e: "e = TickerC" by (cases e) simp_all
  from Cons.prems have "CtxDone \<notin> set evs" by simp
  from Cons.IH [OF this, of "checkEndpoint hc ep (env k)" "Suc k"]
  obtain hc' where h: "monitor_loop ep env evs (checkEndpoint hc ep (env k)) (Suc k) =
        Selecting hc' (Suc k + length evs)"
      "evs = [] \<longrightarrow> hc' = checkEndpoint hc ep (env k)"
      "evs \<noteq> [] \<longrightarrow> statuses hc' (Name ep) = Some (probe_status ep (env (Suc k + length evs - 1)))"
    by blast
  show ?case
    using h by (cases "evs = []") (auto simp: e statuses_checkEndpoint)
qed

lemma monitor_loop_returned:
  "(\<exists>hc' n. monitor_loop ep env evs hc k = Returned hc' n) \<longleftrightarrow> CtxDone \<in> set evs"
proof (induction evs arbitrary: hc k)
  case Nil
  then show ?case by simp
next
  case (Cons e evs)
  then show ?case by (cases e) auto
qed

lemma monitor_loop_not_panic: "monitor_loop ep env evs hc k \<noteq> TickerPanic"
proof (induction evs arbitrary: hc k)
  case Nil
  then show ?case by simp
next
  case (Cons e evs)
  then show ?case by (cases e) auto
qed

text \<open>
  C5, as the code has it. For an endpoint with a positive interval: after any number of
  ticks with no cancellation, whatever the probes met, the monitor is still waiting in its
  \<^verbatim>\<open>select\<close>, has made one check at the start and one per tick, and the status map holds
  the status of the latest check, unhealthy when that probe failed. The monitor returns
  exactly when the cancellation case was taken, and it never panics.
\<close>

theorem monitor_survives_failures:
  assumes "0 < Interval ep"
  shows "(CtxDone \<notin> set evs \<longrightarrow>
           (\<exists>hc'. monitorEndpoint ep env evs hc = Selecting hc' (Suc (length evs)) \<and>
              statuses hc' (Name ep) = Some (probe_status ep (env (length evs))) \<and>
              (probe_failed ep (env (length evs)) \<longrightarrow> \<not> Healthy (probe_status ep (env (length evs)))))) \<and>
         ((\<exists>hc' n. monitorEndpoint ep env evs hc = Returned hc' n) \<longleftrightarrow> CtxDone \<in> set evs) \<and>
         monitorEndpoint ep env evs hc \<noteq> TickerPanic"
proof -
  have m: "monitorEndpoint ep env evs hc = monitor_loop ep env evs (checkEndpoint hc ep (env 0)) 1"
    using assms by (simp add: monitorEndpoint_def)
  have 1: "\<exists>hc'. monitorEndpoint ep env evs hc = Selecting hc' (Suc (length evs)) \<and>
              statuses hc' (Name ep) = Some (probe_status ep (env (length evs)))"
    if "CtxDone \<notin> set evs"
    unfolding m
    using monitor_loop_ticks [OF that, of ep env "checkEndpoint hc ep (env 0)" 1]
    by (cases "evs = []") (auto simp: statuses_checkEndpoint)
  show ?thesis
    using 1 by (auto simp: m monitor_loop_returned monitor_loop_not_panic Healthy_probe_status)
qed

theorem monitor_survives_failures_witness:
  "0 < Interval (three_targets ! 0) \<and>
   (\<exists>hc'. monitorEndpoint (three_targets ! 0) (\<lambda>k. probe_with (DoError ''connection refused''))
             [TickerC, TickerC] \<lparr>endpoints = three_targets, statuses = Map.empty\<rparr> = Selecting hc' 3 \<and>
      statuses hc' ''a'' =
        Some \<lparr>Endpoint = three_targets ! 0, Healthy = False, Latency = 7, LastCheck = 18,
              Error = ''connection refused''\<rparr>) \<and>
   (\<exists>hc' n. monitorEndpoint (three_targets ! 0) (\<lambda>k. probe_with (DoError ''connection refused''))
             [TickerC, CtxDone, TickerC] \<lparr>endpoints = three_targets, statuses = Map.empty\<rparr> =
           Returned hc' n)"
  using monitor_survives_failures [of "three_targets ! 0" "[TickerC, TickerC]"
      "\<lambda>k. probe_with (DoError ''connection refused'')"
      "\<lparr>endpoints = three_targets, statuses = Map.empty\<rparr>"]
    monitor_survives_failures [of "three_targets ! 0" "[TickerC, CtxDone, TickerC]"
      "\<lambda>k. probe_with (DoError ''connection refused'')"
      "\<lparr>endpoints = three_targets, statuses = Map.empty\<rparr>"]
  by (simp add: three_targets_def probe_with_def Second_def monitorEndpoint_def checkEndpoint_def
      updateStatus_def)

text \<open>
  C5 as stated fails for a monitored endpoint with a non-positive interval: the monitor
  ends in the panic of \<^verbatim>\<open>time.NewTicker\<close>, with no cancellation and no probe.
\<close>

theorem monitor_ticker_panics:
  "monitorEndpoint \<lparr>Name = ''a'', URL = ''http://a'', Interval = - 1, Timeout = Second,
        ExpectedStatus = 200\<rparr>
      (\<lambda>k. probe_with (Response 200)) [] \<lparr>endpoints = [], statuses = Map.empty\<rparr> = TickerPanic"
  by (simp add: monitorEndpoint_def)

lemma monitorEndpoint_panics:
  "(case monitorEndpoint ep env evs hc of TickerPanic \<Rightarrow> True | _ \<Rightarrow> False) \<longleftrightarrow> Interval ep \<le> 0"
  using monitor_loop_not_panic [of ep env evs "checkEndpoint hc ep (env 0)" 1]
  by (auto simp: monitorEndpoint_def split: monitor_result.splits)

lemma list_ex_indices:
  "list_ex (\<lambda>i. P (xs ! i)) [0..<length xs] \<longleftrightarrow> list_ex P xs"
proof -
  have "(\<exists>i\<in>set [0..<length xs]. P (xs ! i)) \<longleftrightarrow> (\<exists>x\<in>set xs. P x)"
    by (force simp: in_set_conv_nth)
  then show ?thesis by (simp only: list_ex_iff)
qed

lemma main_startup_alt:
  "main_startup rf um cf envs =
     (case (if cf \<noteq> [] then loadEndpoints rf um cf else Inr defaultEndpoints) of
        Inl err \<Rightarrow> Fatal (''Failed to load config: '' @ err)
      | Inr eps \<Rightarrow>
          if list_ex (\<lambda>e. Interval e \<le> 0) eps then TickerPanicked
          else Started \<lparr>endpoints = eps, statuses = Map.empty\<rparr> eps)"
proof -
  have "list_ex (\<lambda>i. case monitorEndpoint (eps ! i) (envs i) [] hc of
                        TickerPanic \<Rightarrow> True | _ \<Rightarrow> False) [0..<length eps] \<longleftrightarrow>
        list_ex (\<lambda>e. Interval e \<le> 0) eps" for eps hc
    using list_ex_indices [of "\<lambda>e. Interval e \<le> 0" eps]
    by (simp add: monitorEndpoint_panics)
  then show ?thesis
    by (simp add: main_startup_def map_nth Let_def split: sum.splits)
qed

lemma set_defaults_interval: "Interval (set_defaults e) \<le> 0 \<longleftrightarrow> Interval e < 0"
  by (auto simp: set_defaults_fields Second_def)

lemma defaults_positive: "\<not> list_ex (\<lambda>e. Interval e \<le> 0) defaultEndpoints"
  by (simp add: defaultEndpoints_def Second_def)

text \<open>
  C4, as the code has it. No target descriptor is validated. Start-up ends in the load
  error exactly when a config file is named and cannot be read or parsed. Otherwise the
  parsed list is taken entry by entry, name and URL as parsed, with interval, timeout and
  expected status replaced by 5 seconds, 3 seconds and 200 exactly where they are zero
  and unchanged elsewhere. If some parsed interval is negative the process ends in the
  panic of \<^verbatim>\<open>time.NewTicker\<close>; if none is, every entry gets its monitor, in order, whatever
  its timeout, URL and name. With no config file the default endpoints are started.
\<close>

theorem main_startup_no_validation:
  "((\<exists>msg. main_startup rf um cf envs = Fatal msg) \<longleftrightarrow>
      cf \<noteq> [] \<and> (isl (rf cf) \<or> (\<exists>d. rf cf = Inr d \<and> isl (um d)))) \<and>
   (\<forall>d eps. cf \<noteq> [] \<and> rf cf = Inr d \<and> um d = Inr eps \<longrightarrow>
      (\<exists>es. length es = length eps \<and>
         (\<forall>i<length eps.
            Name (es ! i) = Name (eps ! i) \<and> URL (es ! i) = URL (eps ! i) \<and>
            Interval (es ! i) = (if Interval (eps ! i) = 0 then 5 * Second else Interval (eps ! i)) \<and>
            Timeout (es ! i) = (if Timeout (eps ! i) = 0 then 3 * Second else Timeout (eps ! i)) \<and>
            ExpectedStatus (es ! i) =
              (if ExpectedStatus (eps ! i) = 0 then 200 else ExpectedStatus (eps ! i))) \<and>
         main_startup rf um cf envs =
           (if list_ex (\<lambda>e. Interval e < 0) eps then TickerPanicked
            else Started \<lparr>endpoints = es, statuses = Map.empty\<rparr> es))) \<and>
   (cf = [] \<longrightarrow> main_startup rf um cf envs =
      Started \<lparr>endpoints = defaultEndpoints, statuses = Map.empty\<rparr> defaultEndpoints)"
proof -
  have 1: "(\<exists>msg. main_startup rf um cf envs = Fatal msg) \<longleftrightarrow>
      cf \<noteq> [] \<and> (isl (rf cf) \<or> (\<exists>d. rf cf = Inr d \<and> isl (um d)))"
    by (auto simp: main_startup_alt loadEndpoints_def defaults_positive split: sum.splits)
  have 2: "\<exists>es. length es = length eps \<and>
         (\<forall>i<length eps.
            Name (es ! i) = Name (eps ! i) \<and> URL (es ! i) = URL (eps ! i) \<and>
            Interval (es ! i) = (if Interval (eps ! i) = 0 then 5 * Second else Interval (eps ! i)) \<and>
            Timeout (es ! i) = (if Timeout (eps ! i) = 0 then 3 * Second else Timeout (eps ! i)) \<and>
            ExpectedStatus (es ! i) =
              (if ExpectedStatus (eps ! i) = 0 then 200 else ExpectedStatus (eps ! i))) \<and>
         main_startup rf um cf envs =
           (if list_ex (\<lambda>e. Interval e < 0) eps then TickerPanicked
            else Started \<lparr>endpoints = es, statuses = Map.empty\<rparr> es)"
    if "cf \<noteq> []" "rf cf = Inr d" "um d = Inr eps" for d eps
  proof -
    have l: "loadEndpoints rf um cf = Inr (map set_defaults eps)"
      using that by (simp add: loadEndpoints_def)
    have p: "list_ex (\<lambda>e. Interval e \<le> 0) (map set_defaults eps) \<longleftrightarrow>
        list_ex (\<lambda>e. Interval e < 0) eps"
      by (simp add: list_ex_iff set_defaults_interval)
    have m: "main_startup rf um cf envs =
        (if list_ex (\<lambda>e. Interval e < 0) eps then TickerPanicked
         else Started \<lparr>endpoints = map set_defaults eps, statuses = Map.empty\<rparr>
                (map set_defaults eps))"
      using that(1) by (simp add: main_startup_alt l p)
    show ?thesis
      using m by (intro exI [of _ "map set_defaults eps"]) (simp add: set_defaults_fields)
  qed
  have 3: "main_startup rf um cf envs =
      Started \<lparr>endpoints = defaultEndpoints, statuses = Map.empty\<rparr> defaultEndpoints"
    if "cf = []"
    using that by (simp add: main_startup_alt defaults_positive)
  show ?thesis using 1 2 3 by blast
qed

theorem main_startup_no_validation_witness:
  "main_startup cfg_read (cfg_parse bad_targets) ''endpoints.json'' no_probes =
     Started \<lparr>endpoints = bad_targets_loaded, statuses = Map.empty\<rparr> bad_targets_loaded \<and>
   main_startup cfg_read (cfg_parse negative_interval_targets) ''endpoints.json'' no_probes =
     TickerPanicked \<and>
   (\<exists>msg. main_startup cfg_read (cfg_parse bad_targets) ''missing.json'' no_probes = Fatal msg) \<and>
   main_startup cfg_read (cfg_parse bad_targets) [] no_probes =
     Started \<lparr>endpoints = defaultEndpoints, statuses = Map.empty\<rparr> defaultEndpoints"
proof -
  have r: "cfg_read ''endpoints.json'' = Inr ''[...]''" "isl (cfg_read ''missing.json'')"
    by (simp_all add: cfg_read_def)
  have u: "cfg_parse bad_targets ''[...]'' = Inr bad_targets"
    "cfg_parse negative_interval_targets ''[...]'' = Inr negative_interval_targets"
    by (simp_all add: cfg_parse_def)
  note a = main_startup_no_validation [of cfg_read "cfg_parse bad_targets" "''endpoints.json''" no_probes]
  note b = main_startup_no_validation
    [of cfg_read "cfg_parse negative_interval_targets" "''endpoints.json''" no_probes]
  note c = main_startup_no_validation [of cfg_read "cfg_parse bad_targets" "''missing.json''" no_probes]
  note d = main_startup_no_validation [of cfg_read "cfg_parse bad_targets" "[]" no_probes]
  from a r(1) u(1) obtain es where es: "length es = length bad_targets"
    "\<forall>i<length bad_targets.
            Name (es ! i) = Name (bad_targets ! i) \<and> URL (es ! i) = URL (bad_targets ! i) \<and>
            Interval (es ! i) = (if Interval (bad_targets ! i) = 0 then 5 * Second else Interval (bad_targets ! i)) \<and>
            Timeout (es ! i) = (if Timeout (bad_targets ! i) = 0 then 3 * Second else Timeout (bad_targets ! i)) \<and>
            ExpectedStatus (es ! i) =
              (if ExpectedStatus (bad_targets ! i) = 0 then 200 else ExpectedStatus (bad_targets ! i))"
    "main_startup cfg_read (cfg_parse bad_targets) ''endpoints.json'' no_probes =
           (if list_ex (\<lambda>e. Interval e < 0) bad_targets then TickerPanicked
            else Started \<lparr>endpoints = es, statuses = Map.empty\<rparr> es)"
    by auto
  have "es = bad_targets_loaded"
  proof (rule nth_equalityI)
    show "length es = length bad_targets_loaded"
      using es(1) by (simp add: bad_targets_def bad_targets_loaded_def)
    fix i assume "i < length es"
    then have "i = 0 \<or> i = 1" using es(1) by (auto simp: bad_targets_def)
    then show "es ! i = bad_targets_loaded ! i"
      using es(2) by (auto simp: bad_targets_def bad_targets_loaded_def Second_def)
  qed
  then have 1: "main_startup cfg_read (cfg_parse bad_targets) ''endpoints.json'' no_probes =
     Started \<lparr>endpoints = bad_targets_loaded, statuses = Map.empty\<rparr> bad_targets_loaded"
    using es(3) by (simp add: bad_targets_def)
  have 2: "main_startup cfg_read (cfg_parse negative_interval_targets) ''endpoints.json'' no_probes =
     TickerPanicked"
    using b r(1) u(2) by (auto simp: negative_interval_targets_def)
  have 3: "\<exists>msg. main_startup cfg_read (cfg_parse bad_targets) ''missing.json'' no_probes = Fatal msg"
    using c r(2) by simp
  have 4: "main_startup cfg_read (cfg_parse bad_targets) [] no_probes =
     Started \<lparr>endpoints = defaultEndpoints, statuses = Map.empty\<rparr> defaultEndpoints"
    using d by simp
  show ?thesis using 1 2 3 4 by blast
qed

text \<open>
  C4 as stated fails: a list with a negative timeout, an empty URL and a duplicate name is
  loaded without error, and each of its entries gets a monitor.
\<close>

theorem invalid_targets_started:
  "main_startup cfg_read (cfg_parse bad_targets) ''endpoints.json'' no_probes =
     Started \<lparr>endpoints = bad_targets_loaded, statuses = Map.empty\<rparr> bad_targets_loaded \<and>
   \<not> spec_valid_targets bad_targets \<and> \<not> spec_valid_targets bad_targets_loaded"
  by (simp add: cfg_read_def cfg_parse_def bad_targets_def bad_targets_loaded_def
      main_startup_alt loadEndpoints_def set_defaults_def Second_def spec_valid_targets_def)

section \<open>Results for the port scanner\<close>

lemma sint_succ:
  fixes p :: go_int
  assumes "sint p < 2 ^ 63 - 1"
  shows "sint (p + 1) = sint p + 1"
proof -
  have lo: "- (2 ^ 63) \<le> sint p" using sint_ge [of p] by simp
  have "sint (p + 1) = signed_take_bit 63 (sint p + 1)"
    by (simp add: sint_word_ariths)
  also have "\<dots> = sint p + 1"
    using lo assms by (intro signed_take_bit_int_eq_self) simp_all
  finally show ?thesis .
qed

lemma jobs_Nil: "\<not> sint s \<le> sint e \<Longrightarrow> jobs s e = []"
  by (simp add: jobs_def)

lemma jobs_Cons:
  assumes "sint s \<le> sint e" "sint e < 2 ^ 63 - 1"
  shows "jobs s e = s # jobs (s + 1) e"
proof -
  have "sint (s + 1) = sint s + 1" using assms by (intro sint_succ) simp
  moreover have "[sint s..sint e] = sint s # [sint s + 1..sint e]"
    using assms(1) by (simp add: upto_rec1)
  ultimately show ?thesis by (simp add: jobs_def)
qed

lemma distinct_jobs: "distinct (jobs s e)"
proof -
  have "inj_on (word_of_int :: int \<Rightarrow> go_int) {sint s..sint e}"
  proof (rule inj_onI)
    fix x y assume x: "x \<in> {sint s..sint e}" and y: "y \<in> {sint s..sint e}"
      and eq: "(word_of_int x :: go_int) = word_of_int y"
    have b: "- (2 ^ 63) \<le> sint s" "sint e < 2 ^ 63"
      using sint_ge [of s] sint_lt [of e] by simp_all
    have "sint (word_of_int x :: go_int) = x" "sint (word_of_int y :: go_int) = y"
      using x y b by (simp_all add: sint_sbintrunc' signed_take_bit_int_eq_self)
    with eq show "x = y" by metis
  qed
  then show ?thesis by (simp add: jobs_def distinct_map)
qed

lemma mset_concat_update:
  "i < length ws \<Longrightarrow>
   mset (concat (map f (ws[i := w]))) + mset (f (ws ! i)) = mset (concat (map f ws)) + mset (f w)"
proof (induction ws arbitrary: i)
  case Nil
  then show ?case by simp
next
  case (Cons a ws)
  then show ?case by (cases i) (simp_all add: ac_simps)
qed

lemma sum_weight_update:
  "i < length ws \<Longrightarrow>
   sum_list (map weight (ws[i := w])) + weight (ws ! i) = sum_list (map weight ws) + weight w"
proof (induction ws arbitrary: i)
  case Nil
  then show ?case by simp
next
  case (Cons a ws)
  then show ?case by (cases i) simp_all
qed

lemma concat_all_done:
  "list_all (\<lambda>w. w = WorkerDone) ws \<Longrightarrow> concat (map scanning ws) = [] \<and> concat (map publishing ws) = []"
  by (induction ws) auto

lemma flow_inv_fire:
  assumes "fire e a st = Some st'" "flow_inv s e st" "sint e < 2 ^ 63 - 1"
  shows "flow_inv s e st'"
proof (cases a)
  case SendPort
  with assms(1) obtain p where p: "producer st = Sending p" "length (ports st) < 100"
    and st': "st' = st\<lparr>ports := ports st @ [p],
        producer := (if sint (p + 1) \<le> sint e then Sending (p + 1) else Closing)\<rparr>"
    by (auto split: producer.splits if_splits)
  have le: "sint p \<le> sint e" using assms(2) p by (simp add: flow_inv_def)
  have j: "jobs p e = p # jobs (p + 1) e" using le assms(3) by (rule jobs_Cons)
  have "mset (pending e (producer st)) =
      add_mset p (mset (pending e (if sint (p + 1) \<le> sint e then Sending (p + 1) else Closing)))"
    using p j by (simp add: jobs_Nil)
  then show ?thesis
    using assms(2) by (simp add: flow_inv_def st' dial_ports_def)
next
  case ClosePorts
  with assms show ?thesis
    by (auto simp: flow_inv_def dial_ports_def split: producer.splits if_splits)
next
  case (ReceivePort i)
  with assms show ?thesis
    using mset_concat_update [of i "workers st" scanning "Scanning (hd (ports st))"]
    by (auto simp: flow_inv_def dial_ports_def split: producer.splits if_splits list.splits)
next
  case (WorkerExit i)
  with assms show ?thesis
    using mset_concat_update [of i "workers st" scanning WorkerDone]
    by (auto simp: flow_inv_def dial_ports_def split: producer.splits if_splits)
next
  case (Dial i ok)
  with assms show ?thesis
    using mset_concat_update [of i "workers st" scanning
        "if ok then Publishing \<lparr>Port = hd (scanning (workers st ! i)), Open = True, Banner = []\<rparr> else Receiving",
        symmetric]
    by (auto simp: flow_inv_def dial_ports_def split: producer.splits if_splits worker.splits)
next
  case (Publish i)
  with assms show ?thesis
    using mset_concat_update [of i "workers st" scanning Receiving]
    by (auto simp: flow_inv_def dial_ports_def split: producer.splits if_splits worker.splits)
next
  case CloseResults
  with assms show ?thesis
    by (auto simp: flow_inv_def dial_ports_def split: if_splits)
next
  case CollectResult
  with assms show ?thesis
    by (auto simp: flow_inv_def dial_ports_def split: if_splits list.splits)
next
  case Return
  with assms show ?thesis
    by (auto simp: flow_inv_def dial_ports_def split: if_splits)
qed

lemma result_inv_fire:
  assumes "fire e a st = Some st'" "result_inv st"
  shows "result_inv st'"
proof (cases a)
  case SendPort
  with assms show ?thesis
    by (auto simp: result_inv_def hits_def split: producer.splits if_splits)
next
  case ClosePorts
  with assms show ?thesis
    by (auto simp: result_inv_def hits_def split: producer.splits if_splits)
next
  case (ReceivePort i)
  with assms show ?thesis
    using mset_concat_update [of i "workers st" publishing "Scanning (hd (ports st))"]
    by (auto simp: result_inv_def hits_def split: if_splits list.splits)
next
  case (WorkerExit i)
  with assms show ?thesis
    using mset_concat_update [of i "workers st" publishing WorkerDone]
    by (auto simp: result_inv_def hits_def split: if_splits)
next
  case (Dial i ok)
  with assms show ?thesis
    using mset_concat_update [of i "workers st" publishing
        "if ok then Publishing \<lparr>Port = hd (scanning (workers st ! i)), Open = True, Banner = []\<rparr> else Receiving"]
    by (auto simp: result_inv_def hits_def split: if_splits worker.splits)
next
  case (Publish i)
  with assms show ?thesis
    using mset_concat_update [of i "workers st" publishing Receiving, symmetric]
    by (auto simp: result_inv_def hits_def split: if_splits worker.splits)
next
  case CloseResults
  with assms show ?thesis
    by (auto simp: result_inv_def hits_def split: if_splits)
next
  case CollectResult
  with assms show ?thesis
    by (auto simp: result_inv_def hits_def split: if_splits list.splits)
next
  case Return
  with assms show ?thesis
    by (auto simp: result_inv_def hits_def split: if_splits)
qed

lemma not_all_done:
  "i < length ws \<Longrightarrow> ws ! i \<noteq> WorkerDone \<Longrightarrow> \<not> list_all (\<lambda>w. w = WorkerDone) ws"
  by (auto simp: list_all_length)

lemma done_update:
  "WorkerDone \<in> set (ws[i := w]) \<Longrightarrow> w \<noteq> WorkerDone \<Longrightarrow> WorkerDone \<in> set ws"
  using set_update_subset_insert [of ws i w] by auto

lemma control_inv_worker:
  assumes "control_inv st" "i < length (workers st)" "workers st ! i \<noteq> WorkerDone"
    "w = WorkerDone \<longrightarrow> ports_closed st \<and> ps = []"
    "WorkerDone \<in> set (workers st) \<longrightarrow> ps = []"
  shows "control_inv (st\<lparr>ports := ps, workers := (workers st)[i := w]\<rparr>)"
proof -
  have n: "\<not> list_all (\<lambda>w. w = WorkerDone) (workers st)"
    using assms(2,3) by (rule not_all_done)
  then have c: "\<not> results_closed st" "\<not> returned st" "closer st \<noteq> CloserDone"
    using assms(1) by (auto simp: control_inv_def)
  have d: "WorkerDone \<in> set ((workers st)[i := w]) \<longrightarrow> ports_closed st \<and> ps = []"
  proof (cases "w = WorkerDone")
    case True
    then show ?thesis using assms(4) by simp
  next
    case False
    then show ?thesis using assms(1,5) done_update [of "workers st" i w]
      by (auto simp: control_inv_def)
  qed
  show ?thesis
    using c d assms(1) by (simp add: control_inv_def)
qed

lemma control_inv_dialed: "control_inv (st\<lparr>dialed := d\<rparr>) = control_inv st"
  by (simp add: control_inv_def)

lemma control_inv_results:
  "control_inv (st\<lparr>workers := ws\<rparr>) \<Longrightarrow> \<not> returned st \<Longrightarrow>
   control_inv (st\<lparr>results := rs, workers := ws\<rparr>)"
  by (auto simp: control_inv_def)

lemma control_inv_fire:
  assumes "fire e a st = Some st'" "control_inv st"
  shows "control_inv st'"
proof (cases a)
  case SendPort
  with assms show ?thesis
    by (auto simp: control_inv_def split: producer.splits if_splits)
next
  case ClosePorts
  with assms show ?thesis
    by (auto simp: control_inv_def split: producer.splits if_splits)
next
  case (ReceivePort i)
  with assms(1) obtain p rest where f: "i < length (workers st)" "workers st ! i = Receiving"
      "ports st = p # rest" "st' = st\<lparr>ports := rest, workers := (workers st)[i := Scanning p]\<rparr>"
    by (auto split: if_splits list.splits)
  have "WorkerDone \<notin> set (workers st)" using assms(2) f(3) by (auto simp: control_inv_def)
  then have "control_inv (st\<lparr>ports := rest, workers := (workers st)[i := Scanning p]\<rparr>)"
    using assms(2) f(1,2) by (intro control_inv_worker) simp_all
  then show ?thesis by (simp add: f(4))
next
  case (WorkerExit i)
  with assms(1) have f: "i < length (workers st)" "workers st ! i = Receiving"
      "ports st = []" "ports_closed st" "st' = st\<lparr>workers := (workers st)[i := WorkerDone]\<rparr>"
    by (auto split: if_splits)
  have "control_inv (st\<lparr>ports := ports st, workers := (workers st)[i := WorkerDone]\<rparr>)"
    by (rule control_inv_worker [OF assms(2) f(1)]) (simp_all add: f)
  then show ?thesis by (simp add: f(5))
next
  case (Dial i ok)
  with assms(1) obtain p where f: "i < length (workers st)" "workers st ! i = Scanning p"
      "st' = st\<lparr>workers := (workers st)[i := (if ok
                            then Publishing \<lparr>Port = p, Open = True, Banner = []\<rparr>
                            else Receiving)],
                        dialed := dialed st @ [(i, p, ok)]\<rparr>"
    by (auto split: if_splits worker.splits)
  have pe: "WorkerDone \<in> set (workers st) \<longrightarrow> ports st = []"
    using assms(2) by (simp add: control_inv_def)
  have "control_inv (st\<lparr>ports := ports st, workers := (workers st)[i := (if ok
                            then Publishing \<lparr>Port = p, Open = True, Banner = []\<rparr>
                            else Receiving)]\<rparr>)"
    by (rule control_inv_worker [OF assms(2) f(1)]) (simp_all add: f pe)
  then show ?thesis by (simp add: f(3) control_inv_dialed)
next
  case (Publish i)
  with assms(1) obtain r where f: "i < length (workers st)" "workers st ! i = Publishing r"
      "st' = st\<lparr>results := results st @ [r], workers := (workers st)[i := Receiving]\<rparr>"
    by (auto split: if_splits worker.splits)
  have n: "\<not> list_all (\<lambda>w. w = WorkerDone) (workers st)"
    using f(1,2) not_all_done [of i "workers st"] by simp
  then have c: "\<not> returned st" using assms(2) by (auto simp: control_inv_def)
  have pe: "WorkerDone \<in> set (workers st) \<longrightarrow> ports st = []"
    using assms(2) by (simp add: control_inv_def)
  have "control_inv (st\<lparr>ports := ports st, workers := (workers st)[i := Receiving]\<rparr>)"
    by (rule control_inv_worker [OF assms(2) f(1)]) (simp_all add: f pe)
  then have "control_inv (st\<lparr>workers := (workers st)[i := Receiving]\<rparr>)" by simp
  from control_inv_results [OF this c, of "results st @ [r]"]
  show ?thesis by (simp add: f(3))
next
  case CloseResults
  with assms show ?thesis
    by (auto simp: control_inv_def split: if_splits)
next
  case CollectResult
  with assms show ?thesis
    by (auto simp: control_inv_def split: if_splits list.splits)
next
  case Return
  with assms show ?thesis
    by (auto simp: control_inv_def split: if_splits)
qed

lemma length_workers_fire:
  "fire e a st = Some st' \<Longrightarrow> length (workers st') = length (workers st)"
  by (cases a) (auto split: producer.splits if_splits list.splits worker.splits)

lemma potential_fire:
  assumes "fire e a st = Some st'" "flow_inv s e st" "sint e < 2 ^ 63 - 1"
  shows "potential e st' < potential e st"
proof (cases a)
  case SendPort
  with assms(1) obtain p where p: "producer st = Sending p" "length (ports st) < 100"
    and st': "st' = st\<lparr>ports := ports st @ [p],
        producer := (if sint (p + 1) \<le> sint e then Sending (p + 1) else Closing)\<rparr>"
    by (auto split: producer.splits if_splits)
  have le: "sint p \<le> sint e" using assms(2) p by (simp add: flow_inv_def)
  have j: "jobs p e = p # jobs (p + 1) e" using le assms(3) by (rule jobs_Cons)
  have "length (pending e (producer st)) =
      Suc (length (pending e (if sint (p + 1) \<le> sint e then Sending (p + 1) else Closing)))"
    using p j by (simp add: jobs_Nil)
  then show ?thesis
    using p by (simp add: potential_def st')
next
  case ClosePorts
  with assms show ?thesis
    by (auto simp: potential_def split: producer.splits if_splits)
next
  case (ReceivePort i)
  with assms show ?thesis
    using sum_weight_update [of i "workers st" "Scanning (hd (ports st))"]
    by (auto simp: potential_def split: if_splits list.splits)
next
  case (WorkerExit i)
  with assms show ?thesis
    using sum_weight_update [of i "workers st" WorkerDone]
    by (auto simp: potential_def split: if_splits)
next
  case (Dial i ok)
  with assms show ?thesis
    using sum_weight_update [of i "workers st"
        "if ok then Publishing \<lparr>Port = hd (scanning (workers st ! i)), Open = True, Banner = []\<rparr> else Receiving"]
    by (auto simp: potential_def split: if_splits worker.splits)
next
  case (Publish i)
  with assms show ?thesis
    using sum_weight_update [of i "workers st" Receiving]
    by (auto simp: potential_def split: if_splits worker.splits)
next
  case CloseResults
  with assms show ?thesis
    by (auto simp: potential_def split: if_splits)
next
  case CollectResult
  with assms show ?thesis
    by (auto simp: potential_def split: if_splits list.splits)
next
  case Return
  with assms show ?thesis
    by (auto simp: potential_def split: if_splits)
qed

lemma progress_fire:
  assumes "control_inv st" "\<not> returned st"
  shows "\<exists>a. fire e a st \<noteq> None"
proof (cases "results st")
  case (Cons r rest)
  then have "fire e CollectResult st \<noteq> None" using assms(2) by simp
  then show ?thesis ..
next
  case Nil
  show ?thesis
  proof (cases "results_closed st")
    case True
    then have "fire e Return st \<noteq> None" using assms(2) Nil by simp
    then show ?thesis ..
  next
    case False
    then have w: "closer st = Waiting" using assms(1) by (cases "closer st") (auto simp: control_inv_def)
    show ?thesis
    proof (cases "list_all (\<lambda>w. w = WorkerDone) (workers st)")
      case True
      then have "fire e CloseResults st \<noteq> None" using w by simp
      then show ?thesis ..
    next
      case False
      then obtain i where i: "i < length (workers st)" "workers st ! i \<noteq> WorkerDone"
        by (auto simp: list_all_length)
      show ?thesis
      proof (cases "workers st ! i")
        case Receiving
        show ?thesis
        proof (cases "ports st")
          case (Cons p rest)
          then have "fire e (ReceivePort i) st \<noteq> None" using i Receiving by simp
          then show ?thesis ..
        next
          case pn: Nil
          show ?thesis
          proof (cases "producer st")
            case (Sending p)
            then have "fire e SendPort st \<noteq> None" using pn by simp
            then show ?thesis ..
          next
            case Closing
            then have "fire e ClosePorts st \<noteq> None" by simp
            then show ?thesis ..
          next
            case ProducerDone
            then have "ports_closed st" using assms(1) by (simp add: control_inv_def)
            then have "fire e (WorkerExit i) st \<noteq> None" using i Receiving pn by simp
            then show ?thesis ..
          qed
        qed
      next
        case (Scanning p)
        then have "fire e (Dial i True) st \<noteq> None" using i by simp
        then show ?thesis ..
      next
        case (Publishing r)
        then have "fire e (Publish i) st \<noteq> None" using i Nil by simp
        then show ?thesis ..
      next
        case WorkerDone
        then show ?thesis using i by simp
      qed
    qed
  qed
qed

lemma scan_inv_init: "scan_inv s e (scanPorts_init s e n)"
  by (simp add: scan_inv_def flow_inv_def result_inv_def control_inv_def scanPorts_init_def
      dial_ports_def hits_def jobs_Nil)

lemma scan_inv_run:
  assumes "sint e < 2 ^ 63 - 1"
  shows "run e st as = Some st' \<Longrightarrow> scan_inv s e st \<Longrightarrow> scan_inv s e st'"
proof (induction as arbitrary: st)
  case Nil
  then show ?case by simp
next
  case (Cons a as)
  then obtain st1 where f: "fire e a st = Some st1" and r: "run e st1 as = Some st'"
    by (auto split: option.splits)
  have "scan_inv s e st1"
    using Cons.prems(2) f assms
    by (auto simp: scan_inv_def intro: flow_inv_fire result_inv_fire control_inv_fire)
  then show ?case using Cons.IH r by blast
qed

lemma potential_run:
  assumes "sint e < 2 ^ 63 - 1"
  shows "run e st as = Some st' \<Longrightarrow> scan_inv s e st \<Longrightarrow> length as + potential e st' \<le> potential e st"
proof (induction as arbitrary: st)
  case Nil
  then show ?case by simp
next
  case (Cons a as)
  then obtain st1 where f: "fire e a st = Some st1" and r: "run e st1 as = Some st'"
    by (auto split: option.splits)
  have i1: "scan_inv s e st1"
    using scan_inv_run [OF assms, of st "[a]" st1 s] f Cons.prems(2) by simp
  have "potential e st1 < potential e st"
    using potential_fire [OF f _ assms] Cons.prems(2) by (auto simp: scan_inv_def)
  moreover have "length as + potential e st' \<le> potential e st1"
    using Cons.IH [OF r i1] .
  ultimately show ?case by simp
qed

lemma length_workers_run:
  "run e st as = Some st' \<Longrightarrow> length (workers st') = length (workers st)"
proof (induction as arbitrary: st)
  case Nil
  then show ?case by simp
next
  case (Cons a as)
  then show ?case by (auto split: option.splits dest: length_workers_fire)
qed

lemma potential_init:
  "potential e (scanPorts_init s e n) = 7 * length (jobs s e) + nat (sint n) + 3"
  by (simp add: potential_def scanPorts_init_def jobs_Nil sum_list_replicate)

lemma returned_facts:
  assumes "scan_inv s e st" "returned st" "workers st \<noteq> []"
  shows "mset (dial_ports st) = mset (jobs s e)" "mset (openPorts st) = mset (hits st)"
    "list_all (\<lambda>w. w = WorkerDone) (workers st)"
proof -
  have c: "control_inv st" using assms(1) by (simp add: scan_inv_def)
  then have rc: "results_closed st" "results st = []" using assms(2) by (auto simp: control_inv_def)
  then show all: "list_all (\<lambda>w. w = WorkerDone) (workers st)" using c by (simp add: control_inv_def)
  then have "WorkerDone \<in> set (workers st)" using assms(3) by (cases "workers st") auto
  then have p: "ports st = []" "producer st = ProducerDone" using c by (auto simp: control_inv_def)
  have z: "concat (map scanning (workers st)) = []" "concat (map publishing (workers st)) = []"
    using concat_all_done [OF all] by simp_all
  show "mset (dial_ports st) = mset (jobs s e)"
    using assms(1) p z by (simp add: scan_inv_def flow_inv_def)
  show "mset (openPorts st) = mset (hits st)"
    using assms(1) rc z by (simp add: scan_inv_def result_inv_def)
qed

lemma hits_bound: "length (hits st) \<le> length (dial_ports st)"
  by (simp add: hits_def dial_ports_def)

lemma count_list_jobs:
  assumes "mset xs = mset (jobs s e)"
  shows "count_list xs p = (if p \<in> set (jobs s e) then 1 else 0)"
proof -
  have "count_list xs p = count (mset (jobs s e)) p"
    using assms by (metis count_mset)
  also have "\<dots> = (if p \<in> set (jobs s e) then 1 else 0)"
    using distinct_jobs [of s e] by (simp add: distinct_count_atmost_1)
  finally show ?thesis .
qed

lemma example_run:
  "\<exists>st. run 9 (scanPorts_init 7 9 2) example_schedule = Some st \<and> returned st \<and>
     dial_ports st = [8, 7, 9] \<and> openPorts st = [\<lparr>Port = 8, Open = True, Banner = []\<rparr>]"
  by (simp add: example_schedule_def scanPorts_init_def dial_ports_def numeral_2_eq_2)

lemma idle_run:
  "\<exists>st. run 9 (scanPorts_init 10 9 3) idle_schedule = Some st \<and> returned st"
  by (simp add: idle_schedule_def scanPorts_init_def numeral_3_eq_3 numeral_2_eq_2)

text \<open>
  C1, as the code has it. For every end port below the largest \<^verbatim>\<open>int\<close>, every worker count
  and every interleaving: at any moment no port has been dialed twice and no port outside
  the range has been dialed, and what has been published or collected are results of dials
  that connected. With at least one worker, when \<^verbatim>\<open>scanPorts\<close> has returned, every port of
  the range has been dialed exactly once and no other port, the returned list holds
  exactly the results of the dials that connected, and it is no longer than the range.
\<close>

theorem scanPorts_each_job_once:
  assumes "sint endPort < 2 ^ 63 - 1"
    and "run endPort (scanPorts_init startPort endPort nworkers) as = Some st"
  shows "mset (dial_ports st) \<subseteq># mset (jobs startPort endPort) \<and>
         mset (openPorts st) + mset (results st) \<subseteq># mset (hits st) \<and>
         list_all Open (openPorts st @ results st) \<and>
         (1 \<le> sint nworkers \<and> returned st \<longrightarrow>
            (\<forall>p. count_list (dial_ports st) p = (if p \<in> set (jobs startPort endPort) then 1 else 0)) \<and>
            mset (openPorts st) = mset (hits st) \<and>
            length (openPorts st) \<le> length (jobs startPort endPort))"
proof -
  have inv: "scan_inv startPort endPort st"
    using scan_inv_run [OF assms(1) assms(2)] scan_inv_init by blast
  have "mset (dial_ports st) + (mset (concat (map scanning (workers st))) + mset (ports st) +
       mset (pending endPort (producer st))) = mset (jobs startPort endPort)"
    using inv by (simp add: scan_inv_def flow_inv_def ac_simps)
  then have 1: "mset (dial_ports st) \<subseteq># mset (jobs startPort endPort)"
    by (metis mset_subset_eq_add_left)
  have "mset (openPorts st) + mset (results st) + mset (concat (map publishing (workers st))) =
      mset (hits st)"
    using inv by (simp add: scan_inv_def result_inv_def)
  then have 2: "mset (openPorts st) + mset (results st) \<subseteq># mset (hits st)"
    by (metis mset_subset_eq_add_left)
  have "set (openPorts st @ results st) \<subseteq> set (hits st)"
    using set_mset_mono [OF 2] by simp
  then have 4: "list_all Open (openPorts st @ results st)"
    unfolding list_all_iff by (auto simp: hits_def)
  have 3: "(\<forall>p. count_list (dial_ports st) p = (if p \<in> set (jobs startPort endPort) then 1 else 0)) \<and>
            mset (openPorts st) = mset (hits st) \<and>
            length (openPorts st) \<le> length (jobs startPort endPort)"
    if w: "1 \<le> sint nworkers" and r: "returned st"
  proof -
    have "length (workers st) = nat (sint nworkers)"
      using length_workers_run [OF assms(2)] by (simp add: scanPorts_init_def)
    then have ne: "workers st \<noteq> []" using w by auto
    note f = returned_facts [OF inv r ne]
    have "length (openPorts st) = length (hits st)" using f(2) by (metis size_mset)
    also have "\<dots> \<le> length (dial_ports st)" by (rule hits_bound)
    also have "\<dots> = length (jobs startPort endPort)" using f(1) by (metis size_mset)
    finally show ?thesis using f count_list_jobs [OF f(1)] by simp
  qed
  show ?thesis using 1 2 3 4 by blast
qed

theorem scanPorts_each_job_once_witness:
  "sint (9 :: go_int) < 2 ^ 63 - 1 \<and> 1 \<le> sint (2 :: go_int) \<and>
   (\<exists>st. run 9 (scanPorts_init 7 9 2) example_schedule = Some st \<and> returned st \<and>
      dial_ports st = [8, 7, 9] \<and> openPorts st = [\<lparr>Port = 8, Open = True, Banner = []\<rparr>] \<and>
      count_list (dial_ports st) 8 = 1 \<and> count_list (dial_ports st) 10 = 0 \<and>
      mset (openPorts st) = mset (hits st) \<and> length (openPorts st) \<le> length (jobs 7 9))"
proof -
  obtain st where st: "run 9 (scanPorts_init 7 9 2) example_schedule = Some st" "returned st"
      "dial_ports st = [8, 7, 9]" "openPorts st = [\<lparr>Port = 8, Open = True, Banner = []\<rparr>]"
    using example_run by blast
  have h: "sint (9 :: go_int) < 2 ^ 63 - 1" by simp
  have w: "1 \<le> sint (2 :: go_int)" by simp
  from scanPorts_each_job_once [OF h st(1)] w st(2)
  have "mset (openPorts st) = mset (hits st)" "length (openPorts st) \<le> length (jobs 7 9)"
    by simp_all
  then show ?thesis using st h w by (intro conjI exI [of _ st]) simp_all
qed

lemma sint_le_MaxInt: "sint (p :: go_int) \<le> sint MaxInt"
  using sint_lt [of p] by (simp add: MaxInt_def)

lemma run_append:
  "run e st (as @ bs) = (case run e st as of None \<Rightarrow> None | Some st1 \<Rightarrow> run e st1 bs)"
  by (induction as arbitrary: st) (auto split: option.splits)

lemma one_round:
  "run MaxInt (after_rounds k) [SendPort, ReceivePort 0, Dial 0 False] = Some (after_rounds (Suc k))"
  by (simp add: after_rounds_def sint_le_MaxInt add.assoc)

lemma run_rounds: "run MaxInt (after_rounds k) (rounds n) = Some (after_rounds (k + n))"
proof (induction n arbitrary: k)
  case 0
  then show ?case by (simp add: rounds_def)
next
  case (Suc n)
  have "rounds (Suc n) = [SendPort, ReceivePort 0, Dial 0 False] @ rounds n"
    by (simp add: rounds_def)
  then have "run MaxInt (after_rounds k) (rounds (Suc n)) = run MaxInt (after_rounds (Suc k)) (rounds n)"
    by (simp only: run_append one_round option.case)
  then show ?case using Suc.IH [of "Suc k"] by simp
qed

lemma init_after_rounds: "scanPorts_init MaxInt MaxInt 1 = after_rounds 0"
  by (simp add: scanPorts_init_def after_rounds_def)

lemma dial_ports_after_rounds:
  "dial_ports (after_rounds n) = map (\<lambda>j. MaxInt + of_nat j) [0..<n]"
  by (simp add: dial_ports_def after_rounds_def comp_def)

lemma wrapped_twice: "\<not> distinct (dial_ports (after_rounds (2 ^ 64 + 1)))"
proof
  let ?n = "2 ^ 64 + 1 :: nat"
  let ?xs = "dial_ports (after_rounds ?n)"
  assume d: "distinct ?xs"
  have len: "length ?xs = ?n" by (simp add: dial_ports_after_rounds)
  have a: "?xs ! 0 = MaxInt"
    unfolding dial_ports_after_rounds by (subst nth_map) simp_all
  have "(of_nat (2 ^ 64) :: go_int) = 0" by simp
  then have b: "?xs ! (2 ^ 64) = MaxInt"
    unfolding dial_ports_after_rounds by (subst nth_map) simp_all
  have "(0::nat) = 2 ^ 64"
    using d a b len nth_eq_iff_index_eq [of ?xs 0 "2 ^ 64"] by simp
  then show False by simp
qed

text \<open>
  C1 as stated fails when the end port is the largest \<^verbatim>\<open>int\<close>. The range from \<open>MaxInt\<close> to
  \<open>MaxInt\<close> has the one job \<open>MaxInt\<close>; after it the worker dials \<open>MaxInt + 1\<close>, the
  smallest \<^verbatim>\<open>int\<close>, which is no job of the scan, and after the counter has gone once
  around all 64-bit values the port \<open>MaxInt\<close> is dialed a second time.
\<close>

theorem scanPorts_dials_beyond_range:
  "map_option dial_ports (run MaxInt (scanPorts_init MaxInt MaxInt 1)
       [SendPort, ReceivePort 0, Dial 0 False, SendPort, ReceivePort 0, Dial 0 False]) =
     Some [MaxInt, MaxInt + 1] \<and>
   jobs MaxInt MaxInt = [MaxInt] \<and> MaxInt + 1 \<noteq> MaxInt \<and>
   (\<exists>st. run MaxInt (scanPorts_init MaxInt MaxInt 1) (rounds (2 ^ 64 + 1)) = Some st \<and>
      \<not> distinct (dial_ports st))"
proof -
  have 1: "map_option dial_ports (run MaxInt (scanPorts_init MaxInt MaxInt 1)
       [SendPort, ReceivePort 0, Dial 0 False, SendPort, ReceivePort 0, Dial 0 False]) =
     Some [MaxInt, MaxInt + 1] \<and>
   jobs MaxInt MaxInt = [MaxInt] \<and> MaxInt + 1 \<noteq> MaxInt"
    by (simp add: scanPorts_init_def dial_ports_def jobs_def MaxInt_def)
  have "run MaxInt (scanPorts_init MaxInt MaxInt 1) (rounds (2 ^ 64 + 1)) =
      Some (after_rounds (2 ^ 64 + 1))"
    using run_rounds [of 0 "2 ^ 64 + 1"] by (simp add: init_after_rounds)
  then have 2: "\<exists>st. run MaxInt (scanPorts_init MaxInt MaxInt 1) (rounds (2 ^ 64 + 1)) = Some st \<and>
      \<not> distinct (dial_ports st)"
    using wrapped_twice by blast
  show ?thesis using 1 2 by blast
qed

lemma can_return:
  assumes "sint e < 2 ^ 63 - 1"
  shows "scan_inv s e st \<Longrightarrow> \<exists>bs st'. run e st bs = Some st' \<and> returned st'"
proof (induction "potential e st" arbitrary: st rule: less_induct)
  case less
  show ?case
  proof (cases "returned st")
    case True
    then have "run e st [] = Some st \<and> returned st" by simp
    then show ?thesis by blast
  next
    case False
    have "control_inv st" using less.prems by (simp add: scan_inv_def)
    from progress_fire [OF this False, of e]
    obtain a st1 where f: "fire e a st = Some st1" by auto
    have lt: "potential e st1 < potential e st"
      using potential_fire [OF f _ assms] less.prems by (auto simp: scan_inv_def)
    have "scan_inv s e st1"
      using scan_inv_run [OF assms, of st "[a]" st1 s] f less.prems by simp
    from less.hyps [OF lt this] obtain bs st' where "run e st1 bs = Some st'" "returned st'"
      by blast
    then have "run e st (a # bs) = Some st' \<and> returned st'" using f by simp
    then show ?thesis by blast
  qed
qed

text \<open>
  C6, as the code has it. For every end port below the largest \<^verbatim>\<open>int\<close> and at least one
  worker: every interleaving has at most \<open>7 N + W + 3\<close> steps, from every state it reaches
  the scan can go on to return (so no state is stuck), and when it has returned every
  port of the range has been dialed, every worker has finished, and an empty range
  (start above end) gave the empty result. The worker count is not bounded by the number
  of jobs.
\<close>

theorem scanPorts_terminates:
  assumes "sint endPort < 2 ^ 63 - 1" and "1 \<le> sint nworkers"
    and "run endPort (scanPorts_init startPort endPort nworkers) as = Some st"
  shows "length as \<le> 7 * length (jobs startPort endPort) + nat (sint nworkers) + 3 \<and>
         (\<exists>bs st'. run endPort st bs = Some st' \<and> returned st') \<and>
         (returned st \<longrightarrow>
            mset (dial_ports st) = mset (jobs startPort endPort) \<and>
            list_all (\<lambda>w. w = WorkerDone) (workers st) \<and>
            (sint endPort < sint startPort \<longrightarrow> openPorts st = []))"
proof -
  have inv: "scan_inv startPort endPort st"
    using scan_inv_run [OF assms(1) assms(3)] scan_inv_init by blast
  have 1: "length as \<le> 7 * length (jobs startPort endPort) + nat (sint nworkers) + 3"
    using potential_run [OF assms(1) assms(3) scan_inv_init] by (simp add: potential_init)
  have 2: "\<exists>bs st'. run endPort st bs = Some st' \<and> returned st'"
    using can_return [OF assms(1) inv] .
  have 3: "mset (dial_ports st) = mset (jobs startPort endPort) \<and>
            list_all (\<lambda>w. w = WorkerDone) (workers st) \<and>
            (sint endPort < sint startPort \<longrightarrow> openPorts st = [])"
    if r: "returned st"
  proof -
    have "length (workers st) = nat (sint nworkers)"
      using length_workers_run [OF assms(3)] by (simp add: scanPorts_init_def)
    then have ne: "workers st \<noteq> []" using assms(2) by auto
    note f = returned_facts [OF inv r ne]
    have "openPorts st = []" if "sint endPort < sint startPort"
    proof -
      have "jobs startPort endPort = []" using that by (simp add: jobs_Nil)
      then have "dialed st = []" using f(1) by (simp add: dial_ports_def)
      then show ?thesis using f(2) by (simp add: hits_def)
    qed
    then show ?thesis using f by simp
  qed
  show ?thesis using 1 2 3 by blast
qed

theorem scanPorts_terminates_witness:
  "sint (9 :: go_int) < 2 ^ 63 - 1 \<and> 1 \<le> sint (2 :: go_int) \<and> 1 \<le> sint (3 :: go_int) \<and>
   (\<exists>st. run 9 (scanPorts_init 7 9 2) example_schedule = Some st \<and> returned st \<and>
      length example_schedule \<le> 7 * length (jobs 7 9) + nat (sint (2 :: go_int)) + 3 \<and>
      mset (dial_ports st) = mset (jobs 7 9) \<and> list_all (\<lambda>w. w = WorkerDone) (workers st)) \<and>
   (\<exists>st. run 9 (scanPorts_init 10 9 3) idle_schedule = Some st \<and> returned st \<and>
      openPorts st = [] \<and> list_all (\<lambda>w. w = WorkerDone) (workers st))"
proof -
  obtain st where st: "run 9 (scanPorts_init 7 9 2) example_schedule = Some st" "returned st"
    using example_run by blast
  obtain st2 where st2: "run 9 (scanPorts_init 10 9 3) idle_schedule = Some st2" "returned st2"
    using idle_run by blast
  have h: "sint (9 :: go_int) < 2 ^ 63 - 1" by simp
  have w: "1 \<le> sint (2 :: go_int)" by simp
  have w3: "1 \<le> sint (3 :: go_int)" by simp
  have e: "sint (9 :: go_int) < sint (10 :: go_int)" by simp
  note a = scanPorts_terminates [OF h w st(1)]
  note b = scanPorts_terminates [OF h w3 st2(1)]
  have 1: "\<exists>st. run 9 (scanPorts_init 7 9 2) example_schedule = Some st \<and> returned st \<and>
      length example_schedule \<le> 7 * length (jobs 7 9) + nat (sint (2 :: go_int)) + 3 \<and>
      mset (dial_ports st) = mset (jobs 7 9) \<and> list_all (\<lambda>w. w = WorkerDone) (workers st)"
    using a st by (intro exI [of _ st]) blast
  have 2: "\<exists>st. run 9 (scanPorts_init 10 9 3) idle_schedule = Some st \<and> returned st \<and>
      openPorts st = [] \<and> list_all (\<lambda>w. w = WorkerDone) (workers st)"
    using b st2 e by (intro exI [of _ st2]) blast
  show ?thesis using h w w3 1 2 by blast
qed

lemma never_closing_fire:
  assumes "fire MaxInt a st = Some st'" "never_closing st"
  shows "never_closing st'"
proof (cases a)
  case SendPort
  with assms show ?thesis
    by (auto simp: never_closing_def sint_le_MaxInt split: producer.splits if_splits)
next
  case ClosePorts
  with assms show ?thesis
    by (auto simp: never_closing_def split: producer.splits if_splits)
next
  case (ReceivePort i)
  with assms show ?thesis
    by (auto simp: never_closing_def split: if_splits list.splits dest: done_update)
next
  case (WorkerExit i)
  with assms show ?thesis
    by (auto simp: never_closing_def split: if_splits)
next
  case (Dial i ok)
  with assms show ?thesis
    by (auto simp: never_closing_def split: if_splits worker.splits dest: done_update)
next
  case (Publish i)
  with assms show ?thesis
    by (auto simp: never_closing_def split: if_splits worker.splits dest: done_update)
next
  case CloseResults
  with assms show ?thesis
    by (cases "workers st") (auto simp: never_closing_def split: if_splits)
next
  case CollectResult
  with assms show ?thesis
    by (auto simp: never_closing_def split: if_splits list.splits)
next
  case Return
  with assms show ?thesis
    by (auto simp: never_closing_def split: if_splits)
qed

lemma never_closing_run:
  "run MaxInt st as = Some st' \<Longrightarrow> never_closing st \<Longrightarrow> never_closing st'"
proof (induction as arbitrary: st)
  case Nil
  then show ?case by simp
next
  case (Cons a as)
  then show ?case by (auto split: option.splits dest: never_closing_fire)
qed

text \<open>
  C6 as stated fails when the end port is the largest \<^verbatim>\<open>int\<close>: \<^verbatim>\<open>port <= endPort\<close> always
  holds, the producer never closes the channel, and no interleaving lets the scan return.
\<close>

theorem scanPorts_never_returns:
  "\<not> (\<exists>as st. run MaxInt (scanPorts_init MaxInt MaxInt 1) as = Some st \<and> returned st)"
proof
  assume "\<exists>as st. run MaxInt (scanPorts_init MaxInt MaxInt 1) as = Some st \<and> returned st"
  then obtain as st where r: "run MaxInt (scanPorts_init MaxInt MaxInt 1) as = Some st" "returned st"
    by blast
  have "never_closing (scanPorts_init MaxInt MaxInt 1)"
    by (simp add: never_closing_def scanPorts_init_def)
  from never_closing_run [OF r(1) this] r(2) show False
    by (simp add: never_closing_def)
qed

end
